theory Spec2Isabelle
  imports Complex_Main
begin

section \<open>Results, errors and assertions\<close>

text \<open>
  The C++ source signals no errors by value: a failed \<^verbatim>\<open>BLI_assert\<close> aborts in a debug
  build and is compiled out in a release build, and an out-of-range index or a null
  dereference is undefined behaviour. The embedding makes each of them a value.
  Every function that contains an assertion takes the build as its first argument
  (\<open>dbg = True\<close> for a debug build).
\<close>

datatype error = AssertionFailure | IndexOutOfRange | NullDereference | KeyMissing

definition bindE :: "error + 'a \<Rightarrow> ('a \<Rightarrow> error + 'b) \<Rightarrow> error + 'b" where
  "bindE m f = (case m of Inl e \<Rightarrow> Inl e | Inr x \<Rightarrow> f x)"

definition BLI_assert :: "bool \<Rightarrow> bool \<Rightarrow> error + unit" where
  "BLI_assert dbg c = (if dbg \<and> \<not> c then Inl AssertionFailure else Inr ())"

text \<open>\<^verbatim>\<open>a[i]\<close> on a Vector, Array or Span with a C++ \<^verbatim>\<open>int\<close> index.\<close>

definition get_at :: "'a list \<Rightarrow> int \<Rightarrow> error + 'a" where
  "get_at xs i = (if 0 \<le> i \<and> i < int (length xs) then Inr (xs ! nat i) else Inl IndexOutOfRange)"

definition NO_INDEX :: int where
  "NO_INDEX = -1"

section \<open>Boolean operators\<close>

text \<open>
  Modelled from the spec: the enum \<^verbatim>\<open>bool_optype\<close> is declared in
  \<^verbatim>\<open>BLI_boolean.hh\<close>, which is not among the sources; the spec gives the operator
  codes NONE=0, ISECT=1, UNION=2, DIFFERENCE=3.
\<close>

datatype bool_optype = BOOLEAN_NONE | BOOLEAN_ISECT | BOOLEAN_UNION | BOOLEAN_DIFFERENCE

fun optype_code :: "bool_optype \<Rightarrow> int" where
  "optype_code BOOLEAN_NONE = 0"
| "optype_code BOOLEAN_ISECT = 1"
| "optype_code BOOLEAN_UNION = 2"
| "optype_code BOOLEAN_DIFFERENCE = 3"

text \<open>
  The three loops of \<^verbatim>\<open>apply_bool_op\<close>. Each walks the winding array from some index
  to its end and returns from inside the loop; the argument is the part of the array
  that is still to be visited.
\<close>

fun isect_loop :: "int list \<Rightarrow> bool" where
  "isect_loop [] = True"
| "isect_loop (x # xs) = (if x = 0 then False else isect_loop xs)"

fun union_loop :: "int list \<Rightarrow> bool" where
  "union_loop [] = False"
| "union_loop (x # xs) = (if x \<noteq> 0 then True else union_loop xs)"

fun difference_loop :: "int list \<Rightarrow> bool" where
  "difference_loop [] = False"
| "difference_loop (x # xs) = (if x = 0 then True else difference_loop xs)"

definition apply_bool_op :: "bool \<Rightarrow> int \<Rightarrow> int list \<Rightarrow> error + bool" where
  "apply_bool_op dbg bool_optype winding =
     (let nw = int (length winding) in
      bindE (BLI_assert dbg (nw > 0)) (\<lambda>_.
      if bool_optype = optype_code BOOLEAN_ISECT then Inr (isect_loop winding)
      else if bool_optype = optype_code BOOLEAN_UNION then Inr (union_loop winding)
      else if bool_optype = optype_code BOOLEAN_DIFFERENCE then
        bindE (get_at winding 0) (\<lambda>w0.
        if w0 = 0 then Inr False
        else if nw = 1 then Inr True
        else Inr (difference_loop (drop 1 winding)))
      else Inr False))"

text \<open>A loop over a container whose body may fail: the first failure ends the loop.\<close>

fun foldE :: "('a \<Rightarrow> 's \<Rightarrow> error + 's) \<Rightarrow> 'a list \<Rightarrow> 's \<Rightarrow> error + 's" where
  "foldE f [] s = Inr s"
| "foldE f (x # xs) s = (case f x s of Inl e \<Rightarrow> Inl e | Inr s' \<Rightarrow> foldE f xs s')"

section \<open>Vertices, faces and meshes\<close>

text \<open>
  Modelled from the spec: \<^verbatim>\<open>Vert\<close>, \<^verbatim>\<open>Face\<close>, \<^verbatim>\<open>Mesh\<close> and the arena are declared in
  \<^verbatim>\<open>BLI_mesh_intersect.hh\<close>, which is not among the sources. A vertex has an exact
  rational coordinate, an \<open>id\<close> and an \<open>orig\<close>; a face is a sequence of vertices with an
  \<open>orig\<close> and a parallel \<open>edge_orig\<close> sequence; a mesh is a sequence of faces. The
  approximate coordinate of a vertex and the cached plane of a face are derived data
  and are left out. A \<^verbatim>\<open>Vertp\<close> or \<^verbatim>\<open>Facep\<close> is a handle to an arena entry; two handles
  are equal iff they refer to the same entry, so a handle is modelled by the entry
  itself, and a handle that may be null by an \<open>option\<close>.
\<close>

type_synonym mpq3 = "rat \<times> rat \<times> rat"

record Vert =
  vid :: int
  co_exact :: mpq3
  vorig :: int

record Face =
  vert :: "Vert list"
  orig :: int
  edge_orig :: "int list"

type_synonym Mesh = "Face list"

text \<open>Modelled from the spec: \<^verbatim>\<open>add_face(verts, orig, edge_origs)\<close> of the arena.\<close>

definition add_face :: "Vert list \<Rightarrow> int \<Rightarrow> int list \<Rightarrow> Face" where
  "add_face vs f_orig e_origs = \<lparr>vert = vs, orig = f_orig, edge_orig = e_origs\<rparr>"

section \<open>Patches and cells\<close>

datatype Edge = Edge (ev0: Vert) (ev1: Vert)

record Patch =
  tri :: "int list"
  cell_above :: int
  cell_below :: int

record PatchesInfo =
  patch :: "Patch list"
  tri_patch :: "int list"
  pp_edge :: "int \<times> int \<Rightarrow> Edge option"

record Cell =
  patches :: "int list"
  winding :: "int list"
  winding_assigned :: bool
  flag :: bool

type_synonym CellsInfo = "Cell list"

text \<open>
  \<^verbatim>\<open>std::copy(first, last, out)\<close> into an array that keeps its size: the source
  overwrites the front of the destination, and must fit in it.
\<close>

definition std_copy :: "'a list \<Rightarrow> 'a list \<Rightarrow> error + 'a list" where
  "std_copy src dst =
     (if length src \<le> length dst then Inr (src @ drop (length src) dst)
      else Inl IndexOutOfRange)"

definition seed_ambient_winding :: "Cell \<Rightarrow> Cell" where
  "seed_ambient_winding c =
     c\<lparr>winding := replicate (length (winding c)) 0, winding_assigned := True\<rparr>"

definition init_winding :: "int \<Rightarrow> Cell \<Rightarrow> Cell" where
  "init_winding winding_len c = c\<lparr>winding := replicate (nat winding_len) 0\<rparr>"

definition init_windings :: "int \<Rightarrow> CellsInfo \<Rightarrow> CellsInfo" where
  "init_windings winding_len cinfo = map (init_winding winding_len) cinfo"

definition set_winding_and_flag ::
  "bool \<Rightarrow> Cell \<Rightarrow> Cell \<Rightarrow> int \<Rightarrow> int \<Rightarrow> int \<Rightarrow> error + Cell" where
  "set_winding_and_flag dbg this from_cell shape delta bool_optype =
     bindE (std_copy (winding from_cell) (winding this)) (\<lambda>w.
     bindE (get_at w shape) (\<lambda>ws.
     let w' = w[nat shape := ws + delta] in
     bindE (apply_bool_op dbg bool_optype w') (\<lambda>fl.
     Inr (this\<lparr>winding := w', winding_assigned := True, flag := fl\<rparr>))))"

section \<open>Winding propagation\<close>

text \<open>
  The body of the loop over \<^verbatim>\<open>cell.patches()\<close> in \<^verbatim>\<open>propagate_windings_and_flag\<close>:
  crossing patch \<open>p\<close> from the dequeued cell \<open>c\<close>. The state is the cells and the queue.
  The shape function may fail: the one \<^verbatim>\<open>boolean_trimesh\<close> passes reads a face of the
  intersected mesh.
\<close>

definition cross_patch ::
  "bool \<Rightarrow> PatchesInfo \<Rightarrow> bool_optype \<Rightarrow> int \<Rightarrow> (int \<Rightarrow> error + int) \<Rightarrow> int \<Rightarrow> int \<Rightarrow>
   CellsInfo \<times> int list \<Rightarrow> error + (CellsInfo \<times> int list)" where
  "cross_patch dbg pinfo op nshapes shape_fn c p st =
     (case st of (cinfo, queue) \<Rightarrow>
      bindE (get_at (patch pinfo) p) (\<lambda>patch_p.
      let p_above_c = (cell_below patch_p = c);
          c_neighbor = (if p_above_c then cell_above patch_p else cell_below patch_p) in
      bindE (get_at cinfo c_neighbor) (\<lambda>cell_neighbor.
      if \<not> winding_assigned cell_neighbor then
        let winding_delta = (if p_above_c then - 1 else 1) in
        bindE (get_at (tri patch_p) 0) (\<lambda>t.
        bindE (shape_fn t) (\<lambda>shape.
        bindE (BLI_assert dbg (shape < nshapes)) (\<lambda>_.
        bindE (get_at cinfo c) (\<lambda>cell_c.
        bindE (set_winding_and_flag dbg cell_neighbor cell_c shape winding_delta
                 (optype_code op)) (\<lambda>cell_neighbor'.
        let queue' = queue @ [c_neighbor] in
        bindE (BLI_assert dbg (length queue' \<le> length cinfo)) (\<lambda>_.
        Inr (cinfo[nat c_neighbor := cell_neighbor'], queue')))))))
      else Inr (cinfo, queue))))"

definition unassigned :: "CellsInfo \<Rightarrow> nat" where
  "unassigned cinfo = length (filter (\<lambda>c. \<not> winding_assigned c) cinfo)"

lemma bindE_Inr [simp]: "bindE (Inr x) f = f x"
  by (simp add: bindE_def)

lemma bindE_Inl [simp]: "bindE (Inl e) f = Inl e"
  by (simp add: bindE_def)

lemma bindE_eq_Inr: "bindE m f = Inr y \<longleftrightarrow> (\<exists>x. m = Inr x \<and> f x = Inr y)"
  by (cases m) auto

lemma get_at_eq_Inr: "get_at xs i = Inr x \<longleftrightarrow> 0 \<le> i \<and> nat i < length xs \<and> x = xs ! nat i"
  by (auto simp: get_at_def)

lemma unassigned_update:
  "i < length cinfo \<Longrightarrow> \<not> winding_assigned (cinfo ! i) \<Longrightarrow> winding_assigned c' \<Longrightarrow>
   Suc (unassigned (cinfo[i := c'])) = unassigned cinfo"
proof (induction cinfo arbitrary: i)
  case Nil
  then show ?case by simp
next
  case (Cons a cinfo)
  show ?case
  proof (cases i)
    case 0
    with Cons.prems show ?thesis by (simp add: unassigned_def)
  next
    case (Suc j)
    with Cons.prems have "Suc (unassigned (cinfo[j := c'])) = unassigned cinfo"
      by (intro Cons.IH) auto
    with Suc show ?thesis by (simp add: unassigned_def)
  qed
qed

lemma set_winding_and_flag_assigned:
  "set_winding_and_flag dbg this from_cell shape delta bo = Inr c' \<Longrightarrow> winding_assigned c'"
  by (auto simp: set_winding_and_flag_def bindE_eq_Inr Let_def)

lemma cross_patch_measure:
  assumes "cross_patch dbg pinfo op nshapes shape_fn c p (cinfo, queue) = Inr (cinfo', queue')"
  shows "unassigned cinfo' + length queue' = unassigned cinfo + length queue
         \<and> length queue \<le> length queue' \<and> length cinfo' = length cinfo"
proof -
  from assms obtain patch_p where pp: "get_at (patch pinfo) p = Inr patch_p"
    by (auto simp: cross_patch_def bindE_eq_Inr)
  define cn where "cn = (if cell_below patch_p = c then cell_above patch_p else cell_below patch_p)"
  from assms pp obtain cell_n where cnb: "get_at cinfo cn = Inr cell_n"
    by (auto simp: cross_patch_def bindE_eq_Inr Let_def cn_def)
  show ?thesis
  proof (cases "winding_assigned cell_n")
    case True
    with assms pp cnb show ?thesis
      by (simp add: cross_patch_def Let_def cn_def [symmetric])
  next
    case False
    with assms pp cnb obtain c' where
      c': "winding_assigned c'" and res: "cinfo' = cinfo[nat cn := c']" "queue' = queue @ [cn]"
      by (auto simp: cross_patch_def Let_def cn_def [symmetric] bindE_eq_Inr
          dest: set_winding_and_flag_assigned)
    from cnb have "nat cn < length cinfo" "cell_n = cinfo ! nat cn"
      by (auto simp: get_at_eq_Inr)
    with False c' have "Suc (unassigned (cinfo[nat cn := c'])) = unassigned cinfo"
      by (intro unassigned_update) auto
    with res show ?thesis by simp
  qed
qed

lemma foldE_cross_patch_measure:
  "foldE (cross_patch dbg pinfo op nshapes shape_fn c) ps (cinfo, queue) = Inr (cinfo', queue') \<Longrightarrow>
   unassigned cinfo' + length queue' = unassigned cinfo + length queue
   \<and> length queue \<le> length queue' \<and> length cinfo' = length cinfo"
proof (induction ps arbitrary: cinfo queue)
  case Nil
  then show ?case by simp
next
  case (Cons p ps)
  from Cons.prems obtain ci qu where
    step: "cross_patch dbg pinfo op nshapes shape_fn c p (cinfo, queue) = Inr (ci, qu)"
    and rest: "foldE (cross_patch dbg pinfo op nshapes shape_fn c) ps (ci, qu) = Inr (cinfo', queue')"
    by (auto split: sum.splits)
  from cross_patch_measure [OF step] Cons.IH [OF rest] show ?case by simp
qed

text \<open>
  The queue loop of \<^verbatim>\<open>propagate_windings_and_flag\<close>. Each round dequeues one cell;
  a cell is enqueued only when its winding becomes assigned, so the loop ends.
\<close>

function propagate_loop ::
  "bool \<Rightarrow> PatchesInfo \<Rightarrow> bool_optype \<Rightarrow> int \<Rightarrow> (int \<Rightarrow> error + int) \<Rightarrow>
   CellsInfo \<Rightarrow> int list \<Rightarrow> nat \<Rightarrow> error + CellsInfo" where
  "propagate_loop dbg pinfo op nshapes shape_fn cinfo queue queue_head =
     (if queue_head < length queue then
        (let c = queue ! queue_head in
         case get_at cinfo c of
           Inl e \<Rightarrow> Inl e
         | Inr cell_c \<Rightarrow>
             (case foldE (cross_patch dbg pinfo op nshapes shape_fn c) (patches cell_c)
                     (cinfo, queue) of
                Inl e \<Rightarrow> Inl e
              | Inr (cinfo', queue') \<Rightarrow>
                  propagate_loop dbg pinfo op nshapes shape_fn cinfo' queue' (queue_head + 1)))
      else Inr cinfo)"
  by pat_completeness auto
termination
proof (relation "measure (\<lambda>(dbg, pinfo, op, nshapes, shape_fn, cinfo, queue, queue_head).
                   2 * unassigned cinfo + length queue - queue_head)")
  show "wf (measure (\<lambda>(dbg, pinfo, op, nshapes, shape_fn, cinfo, queue, queue_head).
                   2 * unassigned cinfo + length queue - queue_head))"
    by simp
next
  fix dbg pinfo op nshapes shape_fn cinfo queue queue_head c cell_c st cinfo' queue'
  assume h: "queue_head < length queue"
    and "c = queue ! queue_head"
    and "get_at cinfo c = Inr cell_c"
    and f: "foldE (cross_patch dbg pinfo op nshapes shape_fn c) (patches cell_c) (cinfo, queue) = Inr st"
    and st: "(cinfo', queue') = st"
  from f st have "foldE (cross_patch dbg pinfo op nshapes shape_fn c) (patches cell_c) (cinfo, queue)
      = Inr (cinfo', queue')" by simp
  from foldE_cross_patch_measure [OF this] h
  show "((dbg, pinfo, op, nshapes, shape_fn, cinfo', queue', queue_head + 1),
         (dbg, pinfo, op, nshapes, shape_fn, cinfo, queue, queue_head))
        \<in> measure (\<lambda>(dbg, pinfo, op, nshapes, shape_fn, cinfo, queue, queue_head).
                   2 * unassigned cinfo + length queue - queue_head)"
    by (simp, linarith)
qed

declare propagate_loop.simps [simp del]

definition propagate_windings_and_flag ::
  "bool \<Rightarrow> PatchesInfo \<Rightarrow> CellsInfo \<Rightarrow> int \<Rightarrow> bool_optype \<Rightarrow> int \<Rightarrow>
   (int \<Rightarrow> error + int) \<Rightarrow> error + CellsInfo" where
  "propagate_windings_and_flag dbg pinfo cinfo c_ambient op nshapes shape_fn =
     bindE (get_at cinfo c_ambient) (\<lambda>cell_ambient.
     propagate_loop dbg pinfo op nshapes shape_fn
       (cinfo[nat c_ambient := seed_ambient_winding cell_ambient]) [c_ambient] 0)"

section \<open>Extraction of the result boundary\<close>

text \<open>The flipped copy that \<^verbatim>\<open>extract_from_flag_diffs\<close> allocates for a triangle.\<close>

definition flip_tri :: "Face \<Rightarrow> error + Face" where
  "flip_tri f =
     bindE (get_at (vert f) 0) (\<lambda>t0.
     bindE (get_at (vert f) 2) (\<lambda>t2.
     bindE (get_at (vert f) 1) (\<lambda>t1.
     bindE (get_at (edge_orig f) 2) (\<lambda>e2.
     bindE (get_at (edge_orig f) 1) (\<lambda>e1.
     bindE (get_at (edge_orig f) 0) (\<lambda>e0.
     Inr (add_face [t0, t2, t1] (orig f) [e2, e1, e0])))))))"

text \<open>The loop body of \<^verbatim>\<open>extract_from_flag_diffs\<close> for triangle \<open>t\<close>; the state is \<^verbatim>\<open>out_tris\<close>.\<close>

definition extract_tri ::
  "Mesh \<Rightarrow> PatchesInfo \<Rightarrow> CellsInfo \<Rightarrow> int \<Rightarrow> Face list \<Rightarrow> error + Face list" where
  "extract_tri tm_subdivided pinfo cinfo t out_tris =
     bindE (get_at (tri_patch pinfo) t) (\<lambda>p.
     bindE (get_at (patch pinfo) p) (\<lambda>patch_p.
     bindE (get_at cinfo (cell_above patch_p)) (\<lambda>c_above.
     bindE (get_at cinfo (cell_below patch_p)) (\<lambda>c_below.
     if flag c_above \<noteq> flag c_below then
       (let flip = flag c_above in
        bindE (get_at tm_subdivided t) (\<lambda>f.
        if flip then bindE (flip_tri f) (\<lambda>flipped_f. Inr (out_tris @ [flipped_f]))
        else Inr (out_tris @ [f])))
     else Inr out_tris))))"

definition extract_from_flag_diffs :: "Mesh \<Rightarrow> PatchesInfo \<Rightarrow> CellsInfo \<Rightarrow> error + Mesh" where
  "extract_from_flag_diffs tm_subdivided pinfo cinfo =
     foldE (extract_tri tm_subdivided pinfo cinfo)
       (map int [0 ..< length tm_subdivided]) []"

text \<open>
  What the spec says of the extractor, in its words: the cells above and below the
  patch of a triangle, the test that their flags differ, and a face with its
  orientation reversed (the vertex cycle reversed, every side keeping its
  \<open>edge_orig\<close>).
\<close>

definition cell_above_of :: "PatchesInfo \<Rightarrow> CellsInfo \<Rightarrow> nat \<Rightarrow> Cell" where
  "cell_above_of pinfo cinfo t =
     cinfo ! nat (cell_above (patch pinfo ! nat (tri_patch pinfo ! t)))"

definition cell_below_of :: "PatchesInfo \<Rightarrow> CellsInfo \<Rightarrow> nat \<Rightarrow> Cell" where
  "cell_below_of pinfo cinfo t =
     cinfo ! nat (cell_below (patch pinfo ! nat (tri_patch pinfo ! t)))"

definition flags_differ :: "PatchesInfo \<Rightarrow> CellsInfo \<Rightarrow> nat \<Rightarrow> bool" where
  "flags_differ pinfo cinfo t =
     (flag (cell_above_of pinfo cinfo t) \<noteq> flag (cell_below_of pinfo cinfo t))"

definition reversed_face :: "Face \<Rightarrow> Face" where
  "reversed_face f =
     \<lparr>vert = rotate 2 (rev (vert f)), orig = orig f, edge_orig = rev (edge_orig f)\<rparr>"

definition emitted :: "Mesh \<Rightarrow> PatchesInfo \<Rightarrow> CellsInfo \<Rightarrow> nat \<Rightarrow> Face" where
  "emitted tm pinfo cinfo t =
     (if flag (cell_above_of pinfo cinfo t) then reversed_face (tm ! t) else tm ! t)"

text \<open>The unordered side \<open>i\<close> of a triangle, with the \<open>edge_orig\<close> it carries.\<close>

definition side :: "Face \<Rightarrow> nat \<Rightarrow> Vert set \<times> int" where
  "side f i = ({vert f ! i, vert f ! ((i + 1) mod 3)}, edge_orig f ! i)"

text \<open>
  The inputs on which the extractor reads only inside its containers: a triangle mesh
  whose triangles all have a patch, and patches whose two cells exist.
\<close>

definition is_tri :: "Face \<Rightarrow> bool" where
  "is_tri f = (length (vert f) = 3)"

definition extract_inputs_ok :: "Mesh \<Rightarrow> PatchesInfo \<Rightarrow> CellsInfo \<Rightarrow> bool" where
  "extract_inputs_ok tm pinfo cinfo =
     (list_all (\<lambda>f. is_tri f \<and> length (edge_orig f) = 3) tm
      \<and> length tm \<le> length (tri_patch pinfo)
      \<and> list_all (\<lambda>p. 0 \<le> p \<and> nat p < length (patch pinfo)) (take (length tm) (tri_patch pinfo))
      \<and> list_all (\<lambda>pa. 0 \<le> cell_above pa \<and> nat (cell_above pa) < length cinfo
                     \<and> 0 \<le> cell_below pa \<and> nat (cell_below pa) < length cinfo) (patch pinfo))"

section \<open>Example data\<close>

definition mk_vert :: "int \<Rightarrow> rat \<Rightarrow> rat \<Rightarrow> rat \<Rightarrow> Vert" where
  "mk_vert i x y z = \<lparr>vid = i, co_exact = (x, y, z), vorig = i\<rparr>"

definition mk_tri :: "Vert \<Rightarrow> Vert \<Rightarrow> Vert \<Rightarrow> int \<Rightarrow> Face" where
  "mk_tri a b c f_orig = \<lparr>vert = [a, b, c], orig = f_orig, edge_orig = [3 * f_orig, 3 * f_orig + 1, 3 * f_orig + 2]\<rparr>"

text \<open>
  One patch between two cells: cell 0 lies above it and cell 1 below it. Neither cell
  has a winding assigned yet; both have room for one shape.
\<close>

definition ex_patch :: Patch where
  "ex_patch = \<lparr>tri = [0], cell_above = 0, cell_below = 1\<rparr>"

definition ex_pinfo :: PatchesInfo where
  "ex_pinfo = \<lparr>patch = [ex_patch], tri_patch = [0], pp_edge = (\<lambda>_. None)\<rparr>"

definition ex_cell :: Cell where
  "ex_cell = \<lparr>patches = [0], winding = [0], winding_assigned = False, flag = False\<rparr>"


definition ex_tm :: Mesh where
  "ex_tm = [mk_tri (mk_vert 0 0 0 0) (mk_vert 1 1 0 0) (mk_vert 2 0 1 0) 0]"

text \<open>The two example cells after flagging: the cell above the patch is kept.\<close>

definition ex_flagged :: CellsInfo where
  "ex_flagged = [ex_cell\<lparr>flag := True\<rparr>, ex_cell]"

section \<open>Edges and the topology of a triangle mesh\<close>

text \<open>
  The constructor \<^verbatim>\<open>Edge(v0, v1)\<close> puts the vertex with the smaller id first. Equality and
  hashing of edges read the two ids only, so a container keyed on \<^verbatim>\<open>Edge\<close> is keyed on
  the pair of ids. A default-constructed \<^verbatim>\<open>Edge\<close> (two null pointers) is \<open>None\<close>.
\<close>

definition mk_Edge :: "Vert \<Rightarrow> Vert \<Rightarrow> Edge" where
  "mk_Edge a b = (if vid a \<le> vid b then Edge a b else Edge b a)"

definition edge_key :: "Edge \<Rightarrow> int \<times> int" where
  "edge_key e = (vid (ev0 e), vid (ev1 e))"

definition edge_eq :: "Edge \<Rightarrow> Edge \<Rightarrow> bool" where
  "edge_eq e f = (vid (ev0 e) = vid (ev0 f) \<and> vid (ev1 e) = vid (ev1 f))"

record TriMeshTopology =
  edge_tri :: "int \<times> int \<Rightarrow> int list option"
  vert_edges :: "Vert \<Rightarrow> Edge list option"

definition append_non_duplicates :: "int list \<Rightarrow> int \<Rightarrow> int list" where
  "append_non_duplicates xs x = (if x \<in> set xs then xs else xs @ [x])"

definition append_non_duplicates_edge :: "Edge list \<Rightarrow> Edge \<Rightarrow> Edge list" where
  "append_non_duplicates_edge es e = (if list_ex (\<lambda>f. edge_eq f e) es then es else es @ [e])"

text \<open>The body of the loop over the three sides of triangle \<open>t\<close> in the constructor.\<close>

definition topo_add_side :: "int \<Rightarrow> Face \<Rightarrow> int \<Rightarrow> TriMeshTopology \<Rightarrow> error + TriMeshTopology" where
  "topo_add_side t tri_t i topo =
     bindE (get_at (vert tri_t) i) (\<lambda>v.
     bindE (get_at (vert tri_t) ((i + 1) mod 3)) (\<lambda>vnext.
     let e = mk_Edge v vnext;
         edges = (case vert_edges topo v of None \<Rightarrow> [] | Some es \<Rightarrow> es);
         tris = (case edge_tri topo (edge_key e) of
                   None \<Rightarrow> [t]
                 | Some ts \<Rightarrow> append_non_duplicates ts t)
     in Inr (topo\<lparr>edge_tri := (edge_tri topo)(edge_key e \<mapsto> tris),
                  vert_edges := (vert_edges topo)(v \<mapsto> append_non_duplicates_edge edges e)\<rparr>)))"

definition topo_add_tri :: "bool \<Rightarrow> Mesh \<Rightarrow> int \<Rightarrow> TriMeshTopology \<Rightarrow> error + TriMeshTopology" where
  "topo_add_tri dbg tm t topo =
     bindE (get_at tm t) (\<lambda>tri_t.
     bindE (BLI_assert dbg (is_tri tri_t)) (\<lambda>_.
     foldE (topo_add_side t tri_t) [0, 1, 2] topo))"

definition empty_topo :: TriMeshTopology where
  "empty_topo = \<lparr>edge_tri = (\<lambda>_. None), vert_edges = (\<lambda>_. None)\<rparr>"

definition TriMeshTopology_ctor :: "bool \<Rightarrow> Mesh \<Rightarrow> error + TriMeshTopology" where
  "TriMeshTopology_ctor dbg tm =
     foldE (topo_add_tri dbg tm) (map int [0 ..< length tm]) empty_topo"

definition other_tri_if_manifold :: "TriMeshTopology \<Rightarrow> Edge \<Rightarrow> int \<Rightarrow> int" where
  "other_tri_if_manifold topo e t =
     (case edge_tri topo (edge_key e) of
        None \<Rightarrow> NO_INDEX
      | Some p \<Rightarrow> if length p = 2 then (if p ! 0 = t then p ! 1 else p ! 0) else NO_INDEX)"

definition edge_tris :: "TriMeshTopology \<Rightarrow> Edge \<Rightarrow> int list option" where
  "edge_tris topo e = edge_tri topo (edge_key e)"

section \<open>Radial sort of the triangles around an edge\<close>

text \<open>
  \<^verbatim>\<open>find_flap_vert\<close> returns the flap vertex (\<open>None\<close> for the null pointer) together with
  the value left in \<^verbatim>\<open>*r_rev\<close>. Every path of the source reads all three vertices of the
  triangle before it returns.
\<close>

definition find_flap_vert :: "Face \<Rightarrow> Edge \<Rightarrow> error + (Vert option \<times> bool)" where
  "find_flap_vert tri_f e =
     bindE (get_at (vert tri_f) 0) (\<lambda>t0.
     bindE (get_at (vert tri_f) 1) (\<lambda>t1.
     bindE (get_at (vert tri_f) 2) (\<lambda>t2.
     Inr (if t0 = ev0 e then
            (if t1 = ev1 e then (Some t2, False)
             else if t2 \<noteq> ev1 e then (None, False)
             else (Some t1, True))
          else if t1 = ev0 e then
            (if t2 = ev1 e then (Some t0, False)
             else if t0 \<noteq> ev1 e then (None, False)
             else (Some t2, True))
          else
            (if t2 \<noteq> ev0 e then (None, False)
             else if t0 = ev1 e then (Some t1, False)
             else if t1 \<noteq> ev1 e then (None, False)
             else (Some t0, True))))))"

text \<open>
  \<^verbatim>\<open>mpq3::orient3d\<close> belongs to the exact arithmetic, which is not among the sources; the
  functions that use it take it as their argument \<open>orient3d\<close>.
\<close>

type_synonym orient3d_fn = "mpq3 \<Rightarrow> mpq3 \<Rightarrow> mpq3 \<Rightarrow> mpq3 \<Rightarrow> int"

definition sort_tris_class :: "bool \<Rightarrow> orient3d_fn \<Rightarrow> Face \<Rightarrow> Face \<Rightarrow> Edge \<Rightarrow> error + int" where
  "sort_tris_class dbg orient3d tri_f tri0 e =
     bindE (get_at (vert tri0) 0) (\<lambda>a0.
     bindE (get_at (vert tri0) 1) (\<lambda>a1.
     bindE (get_at (vert tri0) 2) (\<lambda>a2.
     bindE (find_flap_vert tri0 e) (\<lambda>(flapv0, rev0).
     bindE (find_flap_vert tri_f e) (\<lambda>(flapv, rev).
     bindE (BLI_assert dbg (flapv \<noteq> None \<and> flapv0 \<noteq> None)) (\<lambda>_.
     case flapv of
       None \<Rightarrow> Inl NullDereference
     | Some fv \<Rightarrow>
         (let orient = orient3d (co_exact a0) (co_exact a1) (co_exact a2) (co_exact fv) in
          Inr (if orient > 0 then (if rev0 then 4 else 3)
               else if orient < 0 then (if rev0 then 3 else 4)
               else (if flapv = flapv0 then 1 else 2)))))))))"

fun mapE :: "('a \<Rightarrow> error + 'b) \<Rightarrow> 'a list \<Rightarrow> error + 'b list" where
  "mapE f [] = Inr []"
| "mapE f (x # xs) =
     (case f x of Inl e \<Rightarrow> Inl e
      | Inr y \<Rightarrow> (case mapE f xs of Inl e \<Rightarrow> Inl e | Inr ys \<Rightarrow> Inr (y # ys)))"

definition signed_index :: "Mesh \<Rightarrow> Edge \<Rightarrow> int \<Rightarrow> error + int" where
  "signed_index tm e t =
     bindE (get_at tm t) (\<lambda>tri_t.
     bindE (find_flap_vert tri_t e) (\<lambda>(flapv, rev).
     Inr (if rev then - t else t)))"

text \<open>\<^verbatim>\<open>std::sort\<close> on integers: the result is the ascending arrangement of the values.\<close>

definition sort_by_signed_triangle_index :: "Mesh \<Rightarrow> Edge \<Rightarrow> int list \<Rightarrow> error + int list" where
  "sort_by_signed_triangle_index tm e g =
     bindE (mapE (signed_index tm e) g) (\<lambda>signed_g.
     Inr (map abs (sort signed_g)))"

definition EXTRA_TRI_INDEX :: int where
  "EXTRA_TRI_INDEX = 2147483647"

type_synonym groups = "int list \<times> int list \<times> int list \<times> int list"

definition group_append :: "int \<Rightarrow> int \<Rightarrow> groups \<Rightarrow> groups" where
  "group_append group_num t g =
     (case g of (g1, g2, g3, g4) \<Rightarrow>
        if group_num = 1 then (g1 @ [t], g2, g3, g4)
        else if group_num = 2 then (g1, g2 @ [t], g3, g4)
        else if group_num = 3 then (g1, g2, g3 @ [t], g4)
        else (g1, g2, g3, g4 @ [t]))"

text \<open>The body of the classification loop of \<^verbatim>\<open>sort_tris_around_edge\<close> for \<open>t = tris[i]\<close>, \<open>i > 0\<close>.\<close>

definition classify_tri ::
  "bool \<Rightarrow> orient3d_fn \<Rightarrow> Mesh \<Rightarrow> Edge \<Rightarrow> Face \<Rightarrow> Face option \<Rightarrow> int \<Rightarrow> groups \<Rightarrow> error + groups" where
  "classify_tri dbg orient3d tm e tri0 extra_tri t g =
     bindE (BLI_assert dbg (t < int (length tm) \<or> (t = EXTRA_TRI_INDEX \<and> extra_tri \<noteq> None))) (\<lambda>_.
     bindE (if t = EXTRA_TRI_INDEX
            then (case extra_tri of None \<Rightarrow> Inl NullDereference | Some f \<Rightarrow> Inr f)
            else get_at tm t) (\<lambda>tri_t.
     bindE (sort_tris_class dbg orient3d tri_t tri0 e) (\<lambda>group_num.
     Inr (group_append group_num t g))))"

definition classify_tris ::
  "bool \<Rightarrow> orient3d_fn \<Rightarrow> Mesh \<Rightarrow> Edge \<Rightarrow> Face \<Rightarrow> Face option \<Rightarrow> int list \<Rightarrow> error + groups" where
  "classify_tris dbg orient3d tm e tri0 extra_tri tris =
     foldE (classify_tri dbg orient3d tm e tri0 extra_tri) (tl tris) ([hd tris], [], [], [])"

definition groups_size :: "groups \<Rightarrow> nat" where
  "groups_size g = (case g of (g1, g2, g3, g4) \<Rightarrow> length g1 + length g2 + length g3 + length g4)"

lemma classify_tri_size:
  "classify_tri dbg orient3d tm e tri0 extra_tri t g = Inr g' \<Longrightarrow>
   groups_size g' = Suc (groups_size g) \<and> (fst g \<noteq> [] \<longrightarrow> fst g' \<noteq> [])"
  by (cases g) (auto simp: classify_tri_def bindE_eq_Inr group_append_def groups_size_def
      split: if_splits)

lemma foldE_classify_tri_size:
  "foldE (classify_tri dbg orient3d tm e tri0 extra_tri) ts g = Inr g' \<Longrightarrow>
   groups_size g' = length ts + groups_size g \<and> (fst g \<noteq> [] \<longrightarrow> fst g' \<noteq> [])"
proof (induction ts arbitrary: g)
  case Nil
  then show ?case by simp
next
  case (Cons t ts)
  from Cons.prems obtain g1 where
    s: "classify_tri dbg orient3d tm e tri0 extra_tri t g = Inr g1"
    and r: "foldE (classify_tri dbg orient3d tm e tri0 extra_tri) ts g1 = Inr g'"
    by (auto split: sum.splits)
  from classify_tri_size [OF s] Cons.IH [OF r] show ?case by simp
qed

lemma classify_tris_size:
  assumes "classify_tris dbg orient3d tm e tri0 extra_tri tris = Inr (g1, g2, g3, g4)"
    and "tris \<noteq> []"
  shows "length g1 + length g2 + length g3 + length g4 = length tris \<and> g1 \<noteq> []"
proof -
  from foldE_classify_tri_size [OF assms(1) [unfolded classify_tris_def]] assms(2)
  show ?thesis by (simp add: groups_size_def)
qed

text \<open>
  \<^verbatim>\<open>sort_tris_around_edge\<close>. Its argument \<^verbatim>\<open>tmtopo\<close> is only handed on to the recursive
  calls and is left out. The groups \<open>g3\<close> and \<open>g4\<close> are strictly shorter than \<open>tris\<close>,
  because \<open>g1\<close> holds \<open>tris[0]\<close>.
\<close>

function sort_tris_around_edge ::
  "bool \<Rightarrow> orient3d_fn \<Rightarrow> Mesh \<Rightarrow> Edge \<Rightarrow> int list \<Rightarrow> int \<Rightarrow> Face option \<Rightarrow> error + int list" where
  "sort_tris_around_edge dbg orient3d tm e tris t0 extra_tri =
     (if tris = [] then Inr []
      else
        case get_at tm t0 of
          Inl err \<Rightarrow> Inl err
        | Inr tri0 \<Rightarrow>
          (case classify_tris dbg orient3d tm e tri0 extra_tri tris of
             Inl err \<Rightarrow> Inl err
           | Inr (g1, g2, g3, g4) \<Rightarrow>
             (case (if length g1 > 1 then sort_by_signed_triangle_index tm e g1 else Inr g1) of
                Inl err \<Rightarrow> Inl err
              | Inr g1s \<Rightarrow>
             (case (if length g2 > 1 then sort_by_signed_triangle_index tm e g2 else Inr g2) of
                Inl err \<Rightarrow> Inl err
              | Inr g2s \<Rightarrow>
             (case (if length g3 > 1
                    then (case sort_tris_around_edge dbg orient3d tm e g3 (hd g3) extra_tri of
                            Inl err \<Rightarrow> Inl err
                          | Inr g3sorted \<Rightarrow> std_copy g3sorted g3)
                    else Inr g3) of
                Inl err \<Rightarrow> Inl err
              | Inr g3s \<Rightarrow>
             (case (if length g4 > 1
                    then (case sort_tris_around_edge dbg orient3d tm e g4 (hd g4) extra_tri of
                            Inl err \<Rightarrow> Inl err
                          | Inr g4sorted \<Rightarrow> std_copy g4sorted g4)
                    else Inr g4) of
                Inl err \<Rightarrow> Inl err
              | Inr g4s \<Rightarrow>
                  Inr (if hd tris = t0 then g1s @ g4s @ g2s @ g3s
                       else g3s @ g1s @ g4s @ g2s)))))))"
  by pat_completeness auto
termination
proof (relation "measure (\<lambda>(dbg, orient3d, tm, e, tris, t0, extra_tri). length tris)")
  show "wf (measure (\<lambda>(dbg, orient3d, tm, e, tris, t0, extra_tri). length tris))"
    by simp
next
  fix dbg :: bool and orient3d :: orient3d_fn and tm :: Mesh and e :: Edge and tris :: "int list"
    and t0 :: int and extra_tri :: "Face option" and tri0 g g1 r1 g2 r2 g3 g4 g1s g2s
  assume "tris \<noteq> []"
    and "classify_tris dbg orient3d tm e tri0 extra_tri tris = Inr g"
    and "(g1, r1) = g" "(g2, r2) = r1" "(g3, g4) = r2"
  then have "classify_tris dbg orient3d tm e tri0 extra_tri tris = Inr (g1, g2, g3, g4)"
    and "tris \<noteq> []" by auto
  from classify_tris_size [OF this]
  show "((dbg, orient3d, tm, e, g3, hd g3, extra_tri), (dbg, orient3d, tm, e, tris, t0, extra_tri))
        \<in> measure (\<lambda>(dbg, orient3d, tm, e, tris, t0, extra_tri). length tris)"
    by (cases g1) auto
next
  fix dbg :: bool and orient3d :: orient3d_fn and tm :: Mesh and e :: Edge and tris :: "int list"
    and t0 :: int and extra_tri :: "Face option" and tri0 g g1 r1 g2 r2 g3 g4 g1s g2s g3s
  assume "tris \<noteq> []"
    and "classify_tris dbg orient3d tm e tri0 extra_tri tris = Inr g"
    and "(g1, r1) = g" "(g2, r2) = r1" "(g3, g4) = r2"
  then have "classify_tris dbg orient3d tm e tri0 extra_tri tris = Inr (g1, g2, g3, g4)"
    and "tris \<noteq> []" by auto
  from classify_tris_size [OF this]
  show "((dbg, orient3d, tm, e, g4, hd g4, extra_tri), (dbg, orient3d, tm, e, tris, t0, extra_tri))
        \<in> measure (\<lambda>(dbg, orient3d, tm, e, tris, t0, extra_tri). length tris)"
    by (cases g1) auto
qed

declare sort_tris_around_edge.simps [simp del]

text \<open>
  Modelled from the spec: \<^verbatim>\<open>orient3d(a, b, c, d)\<close> of the exact arithmetic, which is not
  among the sources, is the sign of the signed volume of the tetrahedron \<open>(a, b, c, d)\<close>;
  by the comment in \<^verbatim>\<open>sort_tris_class\<close> it is positive when \<open>d\<close> lies below the oriented
  plane of \<open>a, b, c\<close>. It is used for the examples only.
\<close>

definition orient3d_sign :: orient3d_fn where
  "orient3d_sign a b c d =
     (case (a, b, c, d) of ((ax, ay, az), (bx, by, bz), (cx, cy, cz), (dx, dy, dz)) \<Rightarrow>
        let adx = ax - dx; ady = ay - dy; adz = az - dz;
            bdx = bx - dx; bdy = by - dy; bdz = bz - dz;
            cdx = cx - dx; cdy = cy - dy; cdz = cz - dz;
            det = adx * (bdy * cdz - bdz * cdy) + bdx * (cdy * adz - cdz * ady)
                  + cdx * (ady * bdz - adz * bdy)
        in if det > 0 then 1 else if det < 0 then - 1 else 0)"

text \<open>
  Four triangles around the edge from \<open>(0,0,0)\<close> to \<open>(0,0,1)\<close>: triangle 0 reaches to
  \<open>+x\<close>, triangle 1 to \<open>+y\<close> (above triangle 0), triangle 2 to \<open>-x\<close> (coplanar with
  triangle 0, on the other side) and triangle 3 to \<open>-y\<close> (below), the last one using
  the edge reversed.
\<close>

definition ex_A :: Vert where "ex_A = mk_vert 0 0 0 0"
definition ex_B :: Vert where "ex_B = mk_vert 1 0 0 1"

definition ex_edge :: Edge where
  "ex_edge = mk_Edge ex_A ex_B"

definition ex_fan :: Mesh where
  "ex_fan = [mk_tri ex_A ex_B (mk_vert 2 1 0 0) 0,
             mk_tri ex_A ex_B (mk_vert 3 0 1 0) 1,
             mk_tri ex_A ex_B (mk_vert 4 (- 1) 0 0) 2,
             mk_tri ex_B ex_A (mk_vert 5 0 (- 1) 0) 3]"

section \<open>Finding the patches\<close>

definition PatchesInfo_ctor :: "nat \<Rightarrow> PatchesInfo" where
  "PatchesInfo_ctor ntri =
     \<lparr>patch = [], tri_patch = replicate ntri NO_INDEX, pp_edge = (\<lambda>_. None)\<rparr>"

definition empty_Patch :: Patch where
  "empty_Patch = \<lparr>tri = [], cell_above = NO_INDEX, cell_below = NO_INDEX\<rparr>"

definition add_tri :: "Patch \<Rightarrow> int \<Rightarrow> Patch" where
  "add_tri pa t = pa\<lparr>tri := tri pa @ [t]\<rparr>"

definition add_patch :: "PatchesInfo \<Rightarrow> int \<times> PatchesInfo" where
  "add_patch pinfo = (int (length (patch pinfo)), pinfo\<lparr>patch := patch pinfo @ [empty_Patch]\<rparr>)"

definition grow_patch :: "PatchesInfo \<Rightarrow> int \<Rightarrow> int \<Rightarrow> error + PatchesInfo" where
  "grow_patch pinfo patch_index t =
     bindE (get_at (tri_patch pinfo) t) (\<lambda>_.
     bindE (get_at (patch pinfo) patch_index) (\<lambda>pa.
     Inr (pinfo\<lparr>tri_patch := (tri_patch pinfo)[nat t := patch_index],
                 patch := (patch pinfo)[nat patch_index := add_tri pa t]\<rparr>)))"

definition tri_is_assigned :: "PatchesInfo \<Rightarrow> int \<Rightarrow> error + bool" where
  "tri_is_assigned pinfo t = bindE (get_at (tri_patch pinfo) t) (\<lambda>p. Inr (p \<noteq> NO_INDEX))"

definition patch_patch_edge :: "PatchesInfo \<Rightarrow> int \<Rightarrow> int \<Rightarrow> Edge option" where
  "patch_patch_edge pinfo p1 p2 = pp_edge pinfo (p1, p2)"

text \<open>\<^verbatim>\<open>Map::add_new\<close> asserts that the key is new.\<close>

definition add_new_patch_patch_edge ::
  "bool \<Rightarrow> PatchesInfo \<Rightarrow> int \<Rightarrow> int \<Rightarrow> Edge \<Rightarrow> error + PatchesInfo" where
  "add_new_patch_patch_edge dbg pinfo p1 p2 e =
     bindE (BLI_assert dbg (pp_edge pinfo (p1, p2) = None)) (\<lambda>_.
     let m1 = (pp_edge pinfo)((p1, p2) \<mapsto> e) in
     bindE (BLI_assert dbg (m1 (p2, p1) = None)) (\<lambda>_.
     Inr (pinfo\<lparr>pp_edge := m1((p2, p1) \<mapsto> e)\<rparr>)))"

text \<open>
  The loop over the triangles of a non-manifold edge \<open>e\<close> of \<open>tcand\<close>: the body for
  \<open>t_other\<close>.
\<close>

definition incidence_step ::
  "bool \<Rightarrow> int \<Rightarrow> int \<Rightarrow> Edge \<Rightarrow> int \<Rightarrow> PatchesInfo \<Rightarrow> error + PatchesInfo" where
  "incidence_step dbg cur_patch_index tcand e t_other pinfo =
     (if t_other \<noteq> tcand then
        bindE (tri_is_assigned pinfo t_other) (\<lambda>assigned.
        if assigned then
          bindE (get_at (tri_patch pinfo) t_other) (\<lambda>p_other.
          if p_other = cur_patch_index then Inr pinfo
          else if patch_patch_edge pinfo cur_patch_index p_other = None
               then add_new_patch_patch_edge dbg pinfo cur_patch_index p_other e
               else Inr pinfo)
        else Inr pinfo)
      else Inr pinfo)"

text \<open>The loop over the three sides of \<open>tcand\<close>: the body for side \<open>i\<close>.\<close>

definition side_step ::
  "bool \<Rightarrow> TriMeshTopology \<Rightarrow> int \<Rightarrow> int \<Rightarrow> Face \<Rightarrow> int \<Rightarrow> PatchesInfo \<times> int list \<Rightarrow>
   error + (PatchesInfo \<times> int list)" where
  "side_step dbg tmtopo cur_patch_index tcand tri_f i st =
     (case st of (pinfo, cur_patch_grow) \<Rightarrow>
      bindE (get_at (vert tri_f) i) (\<lambda>a.
      bindE (get_at (vert tri_f) ((i + 1) mod 3)) (\<lambda>b.
      let e = mk_Edge a b;
          t_other = other_tri_if_manifold tmtopo e tcand in
      if t_other \<noteq> NO_INDEX then
        bindE (tri_is_assigned pinfo t_other) (\<lambda>assigned.
        if \<not> assigned then Inr (pinfo, t_other # cur_patch_grow)
        else Inr (pinfo, cur_patch_grow))
      else
        (case edge_tris tmtopo e of
           None \<Rightarrow> Inr (pinfo, cur_patch_grow)
         | Some etris \<Rightarrow>
             bindE (foldE (incidence_step dbg cur_patch_index tcand e) etris pinfo) (\<lambda>pinfo'.
             Inr (pinfo', cur_patch_grow))))))"

text \<open>One round of the \<^verbatim>\<open>while\<close> loop for an unassigned \<open>tcand\<close> just popped.\<close>

definition grow_step ::
  "bool \<Rightarrow> Mesh \<Rightarrow> TriMeshTopology \<Rightarrow> int \<Rightarrow> int \<Rightarrow> PatchesInfo \<times> int list \<Rightarrow>
   error + (PatchesInfo \<times> int list)" where
  "grow_step dbg tm tmtopo cur_patch_index tcand st =
     (case st of (pinfo, cur_patch_grow) \<Rightarrow>
      bindE (grow_patch pinfo cur_patch_index tcand) (\<lambda>pinfo1.
      bindE (get_at tm tcand) (\<lambda>tri_f.
      foldE (side_step dbg tmtopo cur_patch_index tcand tri_f) [0, 1, 2] (pinfo1, cur_patch_grow))))"

definition n_unassigned :: "PatchesInfo \<Rightarrow> nat" where
  "n_unassigned pinfo = length (filter (\<lambda>p. p = NO_INDEX) (tri_patch pinfo))"

lemma add_new_patch_patch_edge_tri_patch:
  "add_new_patch_patch_edge dbg pinfo p1 p2 e = Inr pinfo' \<Longrightarrow>
   tri_patch pinfo' = tri_patch pinfo \<and> patch pinfo' = patch pinfo"
  by (auto simp: add_new_patch_patch_edge_def bindE_eq_Inr Let_def)

lemma incidence_step_tri_patch:
  "incidence_step dbg cur tcand e t_other pinfo = Inr pinfo' \<Longrightarrow>
   tri_patch pinfo' = tri_patch pinfo \<and> patch pinfo' = patch pinfo"
  by (auto simp: incidence_step_def bindE_eq_Inr split: if_splits
      dest: add_new_patch_patch_edge_tri_patch)

lemma foldE_incidence_step_tri_patch:
  "foldE (incidence_step dbg cur tcand e) ts pinfo = Inr pinfo' \<Longrightarrow>
   tri_patch pinfo' = tri_patch pinfo \<and> patch pinfo' = patch pinfo"
proof (induction ts arbitrary: pinfo)
  case Nil
  then show ?case by simp
next
  case (Cons t ts)
  from Cons.prems obtain p1 where s: "incidence_step dbg cur tcand e t pinfo = Inr p1"
    and r: "foldE (incidence_step dbg cur tcand e) ts p1 = Inr pinfo'"
    by (auto split: sum.splits)
  from incidence_step_tri_patch [OF s] Cons.IH [OF r] show ?case by simp
qed

lemma side_step_tri_patch:
  "side_step dbg tmtopo cur tcand tri_f i (pinfo, stack) = Inr (pinfo', stack') \<Longrightarrow>
   tri_patch pinfo' = tri_patch pinfo \<and> patch pinfo' = patch pinfo"
  by (auto simp: side_step_def bindE_eq_Inr Let_def split: if_splits option.splits
      dest: foldE_incidence_step_tri_patch)

lemma foldE_side_step_tri_patch:
  "foldE (side_step dbg tmtopo cur tcand tri_f) is (pinfo, stack) = Inr (pinfo', stack') \<Longrightarrow>
   tri_patch pinfo' = tri_patch pinfo \<and> patch pinfo' = patch pinfo"
proof (induction "is" arbitrary: pinfo stack)
  case Nil
  then show ?case by simp
next
  case (Cons i "is")
  from Cons.prems obtain p1 s1 where s: "side_step dbg tmtopo cur tcand tri_f i (pinfo, stack) = Inr (p1, s1)"
    and r: "foldE (side_step dbg tmtopo cur tcand tri_f) is (p1, s1) = Inr (pinfo', stack')"
    by (auto split: sum.splits)
  from side_step_tri_patch [OF s] Cons.IH [OF r] show ?case by simp
qed

lemma count_update_less:
  "i < length xs \<Longrightarrow> xs ! i = a \<Longrightarrow> b \<noteq> a \<Longrightarrow>
   Suc (length (filter (\<lambda>x. x = a) (xs[i := b]))) = length (filter (\<lambda>x. x = a) xs)"
proof (induction xs arbitrary: i)
  case Nil
  then show ?case by simp
next
  case (Cons x xs)
  show ?case
  proof (cases i)
    case 0
    with Cons.prems show ?thesis by simp
  next
    case (Suc j)
    with Cons.prems have "Suc (length (filter (\<lambda>x. x = a) (xs[j := b]))) = length (filter (\<lambda>x. x = a) xs)"
      by (intro Cons.IH) auto
    with Suc show ?thesis by simp
  qed
qed

lemma grow_step_unassigned:
  assumes g: "grow_step dbg tm tmtopo cur tcand (pinfo, stack) = Inr (pinfo', stack')"
    and u: "tri_is_assigned pinfo tcand = Inr False"
  shows "n_unassigned pinfo' < n_unassigned pinfo"
proof -
  from g obtain pinfo1 tri_f where gp: "grow_patch pinfo cur tcand = Inr pinfo1"
    and f: "foldE (side_step dbg tmtopo cur tcand tri_f) [0, 1, 2] (pinfo1, stack) = Inr (pinfo', stack')"
    by (auto simp: grow_step_def bindE_eq_Inr)
  from foldE_side_step_tri_patch [OF f] have e: "tri_patch pinfo' = tri_patch pinfo1" by simp
  from gp have r: "0 \<le> tcand" "nat tcand < length (tri_patch pinfo)" "0 \<le> cur"
    and t1: "tri_patch pinfo1 = (tri_patch pinfo)[nat tcand := cur]"
    by (auto simp: grow_patch_def bindE_eq_Inr get_at_eq_Inr)
  from u r have "tri_patch pinfo ! nat tcand = NO_INDEX"
    by (auto simp: tri_is_assigned_def bindE_eq_Inr get_at_eq_Inr)
  moreover from r have "cur \<noteq> NO_INDEX" by (simp add: NO_INDEX_def)
  ultimately have "Suc (n_unassigned pinfo1) = n_unassigned pinfo"
    unfolding n_unassigned_def t1 using r(2) by (intro count_update_less) auto
  with e show ?thesis by (simp add: n_unassigned_def)
qed

text \<open>
  The \<^verbatim>\<open>while\<close> loop that grows the current patch from the stack; the head of the list
  is the top of the stack.
\<close>

function grow_loop ::
  "bool \<Rightarrow> Mesh \<Rightarrow> TriMeshTopology \<Rightarrow> int \<Rightarrow> PatchesInfo \<Rightarrow> int list \<Rightarrow> error + PatchesInfo" where
  "grow_loop dbg tm tmtopo cur_patch_index pinfo cur_patch_grow =
     (case cur_patch_grow of
        [] \<Rightarrow> Inr pinfo
      | tcand # rest \<Rightarrow>
          (case tri_is_assigned pinfo tcand of
             Inl err \<Rightarrow> Inl err
           | Inr assigned \<Rightarrow>
               if assigned then grow_loop dbg tm tmtopo cur_patch_index pinfo rest
               else
                 (case grow_step dbg tm tmtopo cur_patch_index tcand (pinfo, rest) of
                    Inl err \<Rightarrow> Inl err
                  | Inr (pinfo', stack') \<Rightarrow>
                      grow_loop dbg tm tmtopo cur_patch_index pinfo' stack')))"
  by pat_completeness auto
termination
proof (relation "measures [\<lambda>(dbg, tm, tmtopo, cur, pinfo, stack). n_unassigned pinfo,
                          \<lambda>(dbg, tm, tmtopo, cur, pinfo, stack). length stack]")
  show "wf (measures [\<lambda>(dbg, tm, tmtopo, cur, pinfo, stack). n_unassigned pinfo,
                      \<lambda>(dbg, tm, tmtopo, cur, pinfo, stack). length stack])"
    by simp
next
  fix dbg :: bool and tm :: Mesh and tmtopo :: TriMeshTopology and cur :: int
    and pinfo :: PatchesInfo and stack :: "int list" and tcand rest assigned
  assume "stack = tcand # rest"
  then show "((dbg, tm, tmtopo, cur, pinfo, rest), (dbg, tm, tmtopo, cur, pinfo, stack))
      \<in> measures [\<lambda>(dbg, tm, tmtopo, cur, pinfo, stack). n_unassigned pinfo,
                  \<lambda>(dbg, tm, tmtopo, cur, pinfo, stack). length stack]"
    by simp
next
  fix dbg :: bool and tm :: Mesh and tmtopo :: TriMeshTopology and cur :: int
    and pinfo :: PatchesInfo and stack :: "int list" and tcand rest assigned st pinfo' stack'
  assume "stack = tcand # rest"
    and a: "tri_is_assigned pinfo tcand = Inr assigned" "\<not> assigned"
    and g: "grow_step dbg tm tmtopo cur tcand (pinfo, rest) = Inr st" "(pinfo', stack') = st"
  from g have "grow_step dbg tm tmtopo cur tcand (pinfo, rest) = Inr (pinfo', stack')" by simp
  from grow_step_unassigned [OF this] a
  show "((dbg, tm, tmtopo, cur, pinfo', stack'), (dbg, tm, tmtopo, cur, pinfo, stack))
      \<in> measures [\<lambda>(dbg, tm, tmtopo, cur, pinfo, stack). n_unassigned pinfo,
                  \<lambda>(dbg, tm, tmtopo, cur, pinfo, stack). length stack]"
    by simp
qed

declare grow_loop.simps [simp del]

text \<open>The body of the loop over all triangles, and \<^verbatim>\<open>find_patches\<close>.\<close>

definition seed_step ::
  "bool \<Rightarrow> Mesh \<Rightarrow> TriMeshTopology \<Rightarrow> int \<Rightarrow> PatchesInfo \<Rightarrow> error + PatchesInfo" where
  "seed_step dbg tm tmtopo t pinfo =
     bindE (get_at (tri_patch pinfo) t) (\<lambda>p.
     if p = - 1 then
       (case add_patch pinfo of (cur_patch_index, pinfo1) \<Rightarrow>
          grow_loop dbg tm tmtopo cur_patch_index pinfo1 [t])
     else Inr pinfo)"

definition find_patches :: "bool \<Rightarrow> Mesh \<Rightarrow> TriMeshTopology \<Rightarrow> error + PatchesInfo" where
  "find_patches dbg tm tmtopo =
     foldE (seed_step dbg tm tmtopo) (map int [0 ..< length tm]) (PatchesInfo_ctor (length tm))"

section \<open>The ambient cell\<close>

definition co_x :: "Vert \<Rightarrow> rat" where
  "co_x v = fst (co_exact v)"

definition co_y :: "Vert \<Rightarrow> rat" where
  "co_y v = fst (snd (co_exact v))"

text \<open>The first loop of \<^verbatim>\<open>find_ambient_cell\<close>, over the vertices of all faces in order.\<close>

fun extreme_loop :: "Vert list \<Rightarrow> Vert \<Rightarrow> Vert" where
  "extreme_loop [] v_extreme = v_extreme"
| "extreme_loop (v # vs) v_extreme =
     (if co_x v > co_x v_extreme then extreme_loop vs v else extreme_loop vs v_extreme)"

text \<open>
  The second loop, over the edges at \<open>v_extreme\<close>, with its \<^verbatim>\<open>break\<close>; the state is
  \<^verbatim>\<open>ehull\<close> and \<^verbatim>\<open>max_abs_slope\<close>.
\<close>

fun hull_edge_loop :: "Vert \<Rightarrow> Edge list \<Rightarrow> Edge option \<times> rat \<Rightarrow> Edge option \<times> rat" where
  "hull_edge_loop v_extreme [] st = st"
| "hull_edge_loop v_extreme (e # es) (ehull, max_abs_slope) =
     (let v_other = (if ev0 e = v_extreme then ev1 e else ev0 e);
          delta_x = co_x v_other - co_x v_extreme
      in if delta_x = 0 then (Some e, max_abs_slope)
         else
           (let abs_slope = abs ((co_y v_other - co_y v_extreme) / delta_x)
            in if abs_slope > max_abs_slope then hull_edge_loop v_extreme es (Some e, abs_slope)
               else hull_edge_loop v_extreme es (ehull, max_abs_slope)))"

text \<open>\<^verbatim>\<open>std::find\<close>: the position of the first occurrence, or the size when there is none.\<close>

definition std_find :: "int list \<Rightarrow> int \<Rightarrow> nat" where
  "std_find xs x = length (takeWhile (\<lambda>y. y \<noteq> x) xs)"

text \<open>
  \<^verbatim>\<open>find_ambient_cell\<close> up to the two neighbours of the dummy triangle in the sorted
  ring. The arena's \<^verbatim>\<open>add_or_find_vert\<close> is not among the sources and is an argument.
\<close>

definition ambient_neighbours ::
  "bool \<Rightarrow> orient3d_fn \<Rightarrow> (mpq3 \<Rightarrow> int \<Rightarrow> Vert) \<Rightarrow> Mesh \<Rightarrow> TriMeshTopology \<Rightarrow> error + (int \<times> int)" where
  "ambient_neighbours dbg orient3d add_or_find_vert tm tmtopo =
     bindE (get_at tm 0) (\<lambda>face0.
     bindE (get_at (vert face0) 0) (\<lambda>v_first.
     let v_extreme = extreme_loop (concat (map vert tm)) v_first in
     case vert_edges tmtopo v_extreme of
       None \<Rightarrow> Inl KeyMissing
     | Some edges \<Rightarrow>
       (case fst (hull_edge_loop v_extreme edges (None, - 1)) of
          None \<Rightarrow> Inl NullDereference
        | Some ehull \<Rightarrow>
          (let p_in_ambient = (case co_exact v_extreme of (x, y, z) \<Rightarrow> (x + 1, y, z)) in
           case edge_tris tmtopo ehull of
             None \<Rightarrow> Inl NullDereference
           | Some ehull_edge_tris \<Rightarrow>
             (let dummy_vert = add_or_find_vert p_in_ambient NO_INDEX;
                  dummy_tri = add_face [ev0 ehull, ev1 ehull, dummy_vert] NO_INDEX
                                [NO_INDEX, NO_INDEX, NO_INDEX];
                  edge_tris' = ehull_edge_tris @ [EXTRA_TRI_INDEX]
              in
              bindE (sort_tris_around_edge dbg orient3d tm ehull edge_tris' (hd edge_tris')
                       (Some dummy_tri)) (\<lambda>sorted_tris.
              let dummy_index = int (std_find sorted_tris EXTRA_TRI_INDEX);
                  n = int (length sorted_tris) in
              bindE (BLI_assert dbg (dummy_index \<noteq> n)) (\<lambda>_.
              bindE (if dummy_index = 0 then get_at sorted_tris (n - 1)
                     else get_at sorted_tris (dummy_index - 1)) (\<lambda>prev_tri.
              bindE (if dummy_index = n - 1 then get_at sorted_tris 0
                     else get_at sorted_tris (dummy_index + 1)) (\<lambda>next_tri.
              Inr (prev_tri, next_tri))))))))))"

definition find_ambient_cell ::
  "bool \<Rightarrow> orient3d_fn \<Rightarrow> (mpq3 \<Rightarrow> int \<Rightarrow> Vert) \<Rightarrow> Mesh \<Rightarrow> TriMeshTopology \<Rightarrow> PatchesInfo \<Rightarrow>
   error + int" where
  "find_ambient_cell dbg orient3d add_or_find_vert tm tmtopo pinfo =
     bindE (ambient_neighbours dbg orient3d add_or_find_vert tm tmtopo) (\<lambda>(prev_tri, next_tri).
     bindE (get_at (tri_patch pinfo) prev_tri) (\<lambda>prev_p.
     bindE (get_at (patch pinfo) prev_p) (\<lambda>prev_patch.
     bindE (get_at (tri_patch pinfo) next_tri) (\<lambda>next_p.
     bindE (get_at (patch pinfo) next_p) (\<lambda>next_patch.
     bindE (BLI_assert dbg (cell_above prev_patch = cell_above next_patch)) (\<lambda>_.
     Inr (cell_above prev_patch)))))))"

section \<open>Finding the cells\<close>

definition empty_Cell :: Cell where
  "empty_Cell = \<lparr>patches = [], winding = [], winding_assigned = False, flag = False\<rparr>"

definition Cell_add_patch :: "Cell \<Rightarrow> int \<Rightarrow> Cell" where
  "Cell_add_patch c p = c\<lparr>patches := patches c @ [p]\<rparr>"

definition add_cell :: "CellsInfo \<Rightarrow> int \<times> CellsInfo" where
  "add_cell cinfo = (int (length cinfo), cinfo @ [empty_Cell])"

definition cell_add_patch_at :: "CellsInfo \<Rightarrow> int \<Rightarrow> int \<Rightarrow> error + CellsInfo" where
  "cell_add_patch_at cinfo c p =
     bindE (get_at cinfo c) (\<lambda>cell_c. Inr (cinfo[nat c := Cell_add_patch cell_c p]))"

text \<open>
  \<^verbatim>\<open>find_cells_from_edge\<close> holds two pointers into the patches, \<^verbatim>\<open>r_follow_cell\<close> and
  \<^verbatim>\<open>rnext_prev_cell\<close>, which may name the same field. A pointer to \<^verbatim>\<open>cell_above\<close> or
  \<^verbatim>\<open>cell_below\<close> of a patch is a patch index with a side (\<open>True\<close> for above); reads and
  writes go through the patches, so aliasing is kept.
\<close>

type_synonym cell_ref = "int \<times> bool"

definition read_cell_ref :: "PatchesInfo \<Rightarrow> cell_ref \<Rightarrow> error + int" where
  "read_cell_ref pinfo r =
     bindE (get_at (patch pinfo) (fst r)) (\<lambda>pa.
     Inr (if snd r then cell_above pa else cell_below pa))"

definition write_cell_ref :: "PatchesInfo \<Rightarrow> cell_ref \<Rightarrow> int \<Rightarrow> error + PatchesInfo" where
  "write_cell_ref pinfo r c =
     bindE (get_at (patch pinfo) (fst r)) (\<lambda>pa.
     Inr (pinfo\<lparr>patch := (patch pinfo)[nat (fst r) :=
            (if snd r then pa\<lparr>cell_above := c\<rparr> else pa\<lparr>cell_below := c\<rparr>)]\<rparr>))"

text \<open>The body of the loop over the sorted ring, for position \<open>i\<close>.\<close>

definition ring_step ::
  "bool \<Rightarrow> Mesh \<Rightarrow> Edge \<Rightarrow> int list \<Rightarrow> int list \<Rightarrow> int \<Rightarrow> int \<Rightarrow> PatchesInfo \<times> CellsInfo \<Rightarrow>
   error + (PatchesInfo \<times> CellsInfo)" where
  "ring_step dbg tm e sorted_tris edge_patches n_edge_tris i st =
     (case st of (pinfo, cinfo) \<Rightarrow>
      let inext = (i + 1) mod n_edge_tris in
      bindE (get_at edge_patches i) (\<lambda>r_index.
      bindE (get_at edge_patches inext) (\<lambda>rnext_index.
      bindE (get_at (patch pinfo) r_index) (\<lambda>_.
      bindE (get_at (patch pinfo) rnext_index) (\<lambda>_.
      bindE (get_at sorted_tris i) (\<lambda>t_i.
      bindE (get_at tm t_i) (\<lambda>f_i.
      bindE (find_flap_vert f_i e) (\<lambda>(_, r_flipped).
      bindE (get_at sorted_tris inext) (\<lambda>t_next.
      bindE (get_at tm t_next) (\<lambda>f_next.
      bindE (find_flap_vert f_next e) (\<lambda>(_, rnext_flipped).
      let r_follow_cell = (r_index, \<not> r_flipped);
          rnext_prev_cell = (rnext_index, rnext_flipped) in
      bindE (read_cell_ref pinfo r_follow_cell) (\<lambda>r_follow.
      bindE (read_cell_ref pinfo rnext_prev_cell) (\<lambda>rnext_prev.
      if r_follow = NO_INDEX \<and> rnext_prev = NO_INDEX then
        (case add_cell cinfo of (c, cinfo1) \<Rightarrow>
           bindE (write_cell_ref pinfo r_follow_cell c) (\<lambda>pinfo1.
           bindE (write_cell_ref pinfo1 rnext_prev_cell c) (\<lambda>pinfo2.
           bindE (cell_add_patch_at cinfo1 c r_index) (\<lambda>cinfo2.
           bindE (cell_add_patch_at cinfo2 c rnext_index) (\<lambda>cinfo3.
           Inr (pinfo2, cinfo3))))))
      else if r_follow \<noteq> NO_INDEX \<and> rnext_prev = NO_INDEX then
        bindE (write_cell_ref pinfo rnext_prev_cell r_follow) (\<lambda>pinfo1.
        bindE (cell_add_patch_at cinfo r_follow rnext_index) (\<lambda>cinfo1.
        Inr (pinfo1, cinfo1)))
      else if r_follow = NO_INDEX \<and> rnext_prev \<noteq> NO_INDEX then
        bindE (write_cell_ref pinfo r_follow_cell rnext_prev) (\<lambda>pinfo1.
        bindE (cell_add_patch_at cinfo rnext_prev r_index) (\<lambda>cinfo1.
        Inr (pinfo1, cinfo1)))
      else if r_follow \<noteq> rnext_prev then
        bindE (BLI_assert dbg False) (\<lambda>_. Inr (pinfo, cinfo))
      else Inr (pinfo, cinfo))))))))))))))"

definition find_cells_from_edge ::
  "bool \<Rightarrow> orient3d_fn \<Rightarrow> Mesh \<Rightarrow> TriMeshTopology \<Rightarrow> PatchesInfo \<Rightarrow> CellsInfo \<Rightarrow> Edge \<Rightarrow>
   error + (PatchesInfo \<times> CellsInfo)" where
  "find_cells_from_edge dbg orient3d tm tmtopo pinfo cinfo e =
     bindE (BLI_assert dbg (edge_tris tmtopo e \<noteq> None)) (\<lambda>_.
     case edge_tris tmtopo e of
       None \<Rightarrow> Inl NullDereference
     | Some etris \<Rightarrow>
         bindE (get_at etris 0) (\<lambda>t0.
         bindE (sort_tris_around_edge dbg orient3d tm e etris t0 None) (\<lambda>sorted_tris.
         let n_edge_tris = int (length etris) in
         bindE (mapE (\<lambda>i. bindE (get_at sorted_tris i) (\<lambda>t. get_at (tri_patch pinfo) t))
                  (map int [0 ..< length etris])) (\<lambda>edge_patches.
         foldE (ring_step dbg tm e sorted_tris edge_patches n_edge_tris)
           (map int [0 ..< length etris]) (pinfo, cinfo)))))"

text \<open>
  The body of the double loop of \<^verbatim>\<open>find_cells\<close> for the patch pair \<open>(p, q)\<close>; the set of
  processed edges is keyed on the ids of the edge.
\<close>

definition pair_step ::
  "bool \<Rightarrow> orient3d_fn \<Rightarrow> Mesh \<Rightarrow> TriMeshTopology \<Rightarrow> int \<times> int \<Rightarrow>
   PatchesInfo \<times> CellsInfo \<times> (int \<times> int) list \<Rightarrow>
   error + (PatchesInfo \<times> CellsInfo \<times> (int \<times> int) list)" where
  "pair_step dbg orient3d tm tmtopo pq st =
     (case st of (pinfo, cinfo, processed_edges) \<Rightarrow>
      case patch_patch_edge pinfo (fst pq) (snd pq) of
        None \<Rightarrow> Inr st
      | Some e \<Rightarrow>
          if edge_key e \<in> set processed_edges then Inr st
          else
            bindE (find_cells_from_edge dbg orient3d tm tmtopo pinfo cinfo e) (\<lambda>(pinfo', cinfo').
            Inr (pinfo', cinfo', edge_key e # processed_edges)))"

definition patch_pairs :: "nat \<Rightarrow> (int \<times> int) list" where
  "patch_pairs np = concat (map (\<lambda>p. map (\<lambda>q. (int p, int q)) [p + 1 ..< np]) [0 ..< np])"

definition find_cells ::
  "bool \<Rightarrow> orient3d_fn \<Rightarrow> Mesh \<Rightarrow> TriMeshTopology \<Rightarrow> PatchesInfo \<Rightarrow> error + (PatchesInfo \<times> CellsInfo)" where
  "find_cells dbg orient3d tm tmtopo pinfo =
     bindE (foldE (pair_step dbg orient3d tm tmtopo) (patch_pairs (length (patch pinfo)))
              (pinfo, [], [])) (\<lambda>(pinfo', cinfo', _).
     Inr (pinfo', cinfo'))"

section \<open>Validation of the patch/cell graph\<close>

text \<open>
  The flood fill of \<^verbatim>\<open>patch_cell_graph_connected\<close>. The state is \<^verbatim>\<open>patch_reachable\<close>,
  \<^verbatim>\<open>cell_reachable\<close> and the stack of patches to visit.
\<close>

type_synonym reach = "bool list \<times> bool list \<times> int list"

definition push_unreached :: "int \<Rightarrow> reach \<Rightarrow> error + reach" where
  "push_unreached p st =
     (case st of (patch_reachable, cell_reachable, stack) \<Rightarrow>
      bindE (get_at patch_reachable p) (\<lambda>reached.
      if \<not> reached then Inr (patch_reachable, cell_reachable, p # stack) else Inr st))"

definition visit_cell :: "CellsInfo \<Rightarrow> int \<Rightarrow> reach \<Rightarrow> error + reach" where
  "visit_cell cinfo c st =
     (case st of (patch_reachable, cell_reachable, stack) \<Rightarrow>
      bindE (get_at cell_reachable c) (\<lambda>reached.
      if reached then Inr st
      else
        bindE (get_at cinfo c) (\<lambda>cell_c.
        foldE push_unreached (patches cell_c)
          (patch_reachable, cell_reachable[nat c := True], stack))))"

definition visit_patch :: "CellsInfo \<Rightarrow> PatchesInfo \<Rightarrow> int \<Rightarrow> reach \<Rightarrow> error + reach" where
  "visit_patch cinfo pinfo p st =
     (case st of (patch_reachable, cell_reachable, stack) \<Rightarrow>
      bindE (get_at (patch pinfo) p) (\<lambda>pa.
      foldE (visit_cell cinfo) [cell_above pa, cell_below pa]
        (patch_reachable[nat p := True], cell_reachable, stack)))"

definition n_unreached :: "bool list \<Rightarrow> nat" where
  "n_unreached reachable = length (filter (\<lambda>b. b = False) reachable)"

lemma push_unreached_frame:
  "push_unreached p (pr, cr, stack) = Inr (pr', cr', stack') \<Longrightarrow> pr' = pr"
  by (auto simp: push_unreached_def bindE_eq_Inr split: if_splits)

lemma foldE_push_unreached_frame:
  "foldE push_unreached ps (pr, cr, stack) = Inr (pr', cr', stack') \<Longrightarrow> pr' = pr"
proof (induction ps arbitrary: pr cr stack)
  case Nil
  then show ?case by simp
next
  case (Cons p ps)
  from Cons.prems obtain a b c where s: "push_unreached p (pr, cr, stack) = Inr (a, b, c)"
    and r: "foldE push_unreached ps (a, b, c) = Inr (pr', cr', stack')"
    by (auto split: sum.splits)
  from push_unreached_frame [OF s] Cons.IH [OF r] show ?case by simp
qed

lemma visit_cell_frame:
  "visit_cell cinfo c (pr, cr, stack) = Inr (pr', cr', stack') \<Longrightarrow> pr' = pr"
  by (auto simp: visit_cell_def bindE_eq_Inr split: if_splits dest: foldE_push_unreached_frame)

lemma foldE_visit_cell_frame:
  "foldE (visit_cell cinfo) cs (pr, cr, stack) = Inr (pr', cr', stack') \<Longrightarrow> pr' = pr"
proof (induction cs arbitrary: pr cr stack)
  case Nil
  then show ?case by simp
next
  case (Cons c cs)
  from Cons.prems obtain a b d where s: "visit_cell cinfo c (pr, cr, stack) = Inr (a, b, d)"
    and r: "foldE (visit_cell cinfo) cs (a, b, d) = Inr (pr', cr', stack')"
    by (auto split: sum.splits)
  from visit_cell_frame [OF s] Cons.IH [OF r] show ?case by simp
qed

lemma visit_patch_unreached:
  assumes v: "visit_patch cinfo pinfo p (pr, cr, stack) = Inr (pr', cr', stack')"
    and u: "get_at pr p = Inr False"
  shows "n_unreached pr' < n_unreached pr"
proof -
  from v obtain pa :: Patch where
    f: "foldE (visit_cell cinfo) [cell_above pa, cell_below pa] (pr[nat p := True], cr, stack)
        = Inr (pr', cr', stack')"
    by (auto simp: visit_patch_def bindE_eq_Inr simp del: foldE.simps)
  from foldE_visit_cell_frame [OF f] have e: "pr' = pr[nat p := True]" .
  from u have "nat p < length pr" "pr ! nat p = False"
    by (auto simp: get_at_eq_Inr)
  then have "Suc (n_unreached (pr[nat p := True])) = n_unreached pr"
    unfolding n_unreached_def by (intro count_update_less) auto
  with e show ?thesis by simp
qed

function reach_loop :: "CellsInfo \<Rightarrow> PatchesInfo \<Rightarrow> reach \<Rightarrow> error + reach" where
  "reach_loop cinfo pinfo st =
     (case st of (patch_reachable, cell_reachable, stack) \<Rightarrow>
      case stack of
        [] \<Rightarrow> Inr st
      | p # rest \<Rightarrow>
          (case get_at patch_reachable p of
             Inl err \<Rightarrow> Inl err
           | Inr reached \<Rightarrow>
               if reached then reach_loop cinfo pinfo (patch_reachable, cell_reachable, rest)
               else
                 (case visit_patch cinfo pinfo p (patch_reachable, cell_reachable, rest) of
                    Inl err \<Rightarrow> Inl err
                  | Inr st' \<Rightarrow> reach_loop cinfo pinfo st')))"
  by pat_completeness auto
termination
proof (relation "measures [\<lambda>(cinfo, pinfo, pr, cr, stack). n_unreached pr,
                          \<lambda>(cinfo, pinfo, pr, cr, stack). length stack]")
  show "wf (measures [\<lambda>(cinfo, pinfo, pr, cr, stack). n_unreached pr,
                      \<lambda>(cinfo, pinfo, pr, cr, stack). length stack])"
    by simp
next
  fix cinfo :: CellsInfo and pinfo :: PatchesInfo and st :: reach
    and pr cr_stack cr stack p rest reached
  assume "(pr, cr_stack) = st" "(cr, stack) = cr_stack" "stack = p # rest"
  then show "((cinfo, pinfo, pr, cr, rest), (cinfo, pinfo, st))
      \<in> measures [\<lambda>(cinfo, pinfo, pr, cr, stack). n_unreached pr,
                  \<lambda>(cinfo, pinfo, pr, cr, stack). length stack]"
    by auto
next
  fix cinfo :: CellsInfo and pinfo :: PatchesInfo and st :: reach
    and pr cr_stack cr stack p rest reached st'
  assume s: "(pr, cr_stack) = st" "(cr, stack) = cr_stack" "stack = p # rest"
    and u: "get_at pr p = Inr reached" "\<not> reached"
    and v: "visit_patch cinfo pinfo p (pr, cr, rest) = Inr st'"
  obtain pr' cr' stack' where st': "st' = (pr', cr', stack')" by (cases st') auto
  from visit_patch_unreached [OF v [unfolded st']] u
  have "n_unreached pr' < n_unreached pr" by simp
  with s st' show "((cinfo, pinfo, st'), (cinfo, pinfo, st))
      \<in> measures [\<lambda>(cinfo, pinfo, pr, cr, stack). n_unreached pr,
                  \<lambda>(cinfo, pinfo, pr, cr, stack). length stack]"
    by auto
qed

declare reach_loop.simps [simp del]

definition patch_cell_graph_connected :: "CellsInfo \<Rightarrow> PatchesInfo \<Rightarrow> error + bool" where
  "patch_cell_graph_connected cinfo pinfo =
     (if length cinfo = 0 \<or> length (patch pinfo) = 0 then Inr False
      else
        bindE (reach_loop cinfo pinfo
                 (replicate (length (patch pinfo)) False, replicate (length cinfo) False, [0]))
          (\<lambda>(patch_reachable, cell_reachable, _).
        if list_ex Not cell_reachable then Inr False
        else if list_ex Not patch_reachable then Inr False
        else Inr True))"

text \<open>
  \<^verbatim>\<open>patch_cell_graph_ok\<close>: the two checking loops return \<open>false\<close> at the first failure,
  in the order of the source.
\<close>

definition cell_ok :: "PatchesInfo \<Rightarrow> Cell \<Rightarrow> bool" where
  "cell_ok pinfo cell_c =
     (length (patches cell_c) \<noteq> 0 \<and> list_all (\<lambda>p. \<not> p \<ge> int (length (patch pinfo))) (patches cell_c))"

definition patch_ok :: "CellsInfo \<Rightarrow> Patch \<Rightarrow> bool" where
  "patch_ok cinfo pa =
     (\<not> (cell_above pa = NO_INDEX \<or> cell_below pa = NO_INDEX)
      \<and> \<not> (cell_above pa \<ge> int (length cinfo) \<or> cell_below pa \<ge> int (length cinfo)))"

definition patch_cell_graph_ok :: "CellsInfo \<Rightarrow> PatchesInfo \<Rightarrow> error + bool" where
  "patch_cell_graph_ok cinfo pinfo =
     (if \<not> list_all (cell_ok pinfo) cinfo then Inr False
      else if \<not> list_all (patch_ok cinfo) (patch pinfo) then Inr False
      else
        bindE (patch_cell_graph_connected cinfo pinfo) (\<lambda>connected.
        if \<not> connected then Inr False else Inr True))"

section \<open>The boolean operation on a triangle mesh\<close>

text \<open>
  The self-intersection collaborators \<^verbatim>\<open>trimesh_self_intersect\<close> and
  \<^verbatim>\<open>trimesh_nary_intersect\<close> and the arena are not among the sources; the two
  intersectors, \<^verbatim>\<open>add_or_find_vert\<close> and \<^verbatim>\<open>orient3d\<close> are arguments, gathered in a record.
\<close>

record collaborators =
  trimesh_self_intersect :: "Mesh \<Rightarrow> Mesh"
  trimesh_nary_intersect :: "Mesh \<Rightarrow> int \<Rightarrow> (int \<Rightarrow> int) \<Rightarrow> bool \<Rightarrow> Mesh"
  arena_add_or_find_vert :: "mpq3 \<Rightarrow> int \<Rightarrow> Vert"
  mpq3_orient3d :: orient3d_fn

definition si_shape_fn :: "(int \<Rightarrow> int) \<Rightarrow> Mesh \<Rightarrow> int \<Rightarrow> error + int" where
  "si_shape_fn shape_fn tm_si t = bindE (get_at tm_si t) (\<lambda>f. Inr (shape_fn (orig f)))"

definition boolean_trimesh ::
  "bool \<Rightarrow> collaborators \<Rightarrow> Mesh \<Rightarrow> bool_optype \<Rightarrow> int \<Rightarrow> (int \<Rightarrow> int) \<Rightarrow> bool \<Rightarrow> error + Mesh" where
  "boolean_trimesh dbg ext tm_in op nshapes shape_fn use_self =
     (if length tm_in = 0 then Inr tm_in
      else
        let tm_si = (if use_self then trimesh_self_intersect ext tm_in
                     else trimesh_nary_intersect ext tm_in nshapes shape_fn use_self) in
        if length tm_si = 0 \<or> op = BOOLEAN_NONE then Inr tm_si
        else
          bindE (TriMeshTopology_ctor dbg tm_si) (\<lambda>tm_si_topo.
          bindE (find_patches dbg tm_si tm_si_topo) (\<lambda>pinfo0.
          bindE (find_cells dbg (mpq3_orient3d ext) tm_si tm_si_topo pinfo0) (\<lambda>(pinfo, cinfo0).
          bindE (patch_cell_graph_connected cinfo0 pinfo) (\<lambda>connected.
          if \<not> connected then Inr tm_in
          else
            bindE (patch_cell_graph_ok cinfo0 pinfo) (\<lambda>pc_ok.
            if \<not> pc_ok then Inr tm_in
            else
              (let cinfo1 = init_windings nshapes cinfo0 in
               bindE (find_ambient_cell dbg (mpq3_orient3d ext) (arena_add_or_find_vert ext) tm_si
                        tm_si_topo pinfo) (\<lambda>c_ambient.
               if c_ambient = NO_INDEX then Inr tm_si
               else
                 bindE (propagate_windings_and_flag dbg pinfo cinfo1 c_ambient op nshapes
                          (si_shape_fn shape_fn tm_si)) (\<lambda>cinfo2.
                 extract_from_flag_diffs tm_si pinfo cinfo2)))))))))"

section \<open>Merging triangles back into polygons\<close>

definition find_tris_common_edge :: "Face \<Rightarrow> Face \<Rightarrow> error + (int \<times> int)" where
  "find_tris_common_edge tri1 tri2 =
     bindE (mapE (get_at (vert tri1)) [0, 1, 2]) (\<lambda>a.
     bindE (mapE (get_at (vert tri2)) [0, 1, 2]) (\<lambda>b.
     Inr (case filter (\<lambda>(i, j). a ! ((i + 1) mod 3) = b ! j \<and> a ! i = b ! ((j + 1) mod 3))
                 (concat (map (\<lambda>i. map (\<lambda>j. (i, j)) [0, 1, 2]) [0, 1, 2])) of
            [] \<Rightarrow> (- 1, - 1)
          | (i, j) # _ \<Rightarrow> (int i, int j))))"

record MergeEdge =
  len_squared :: real
  me_v1 :: Vert
  me_v2 :: Vert
  left_face :: int
  right_face :: int
  me_orig :: int
  dissolvable :: bool

record MergeFace =
  mf_vert :: "Vert list"
  mf_edge :: "int list"
  merge_to :: int
  mf_orig :: int

record FaceMergeState =
  fms_face :: "MergeFace list"
  fms_edge :: "MergeEdge list"
  edge_map :: "int \<times> int \<Rightarrow> int option"

definition MergeEdge_ctor :: "Vert \<Rightarrow> Vert \<Rightarrow> MergeEdge" where
  "MergeEdge_ctor va vb =
     \<lparr>len_squared = 0,
      me_v1 = (if vid va < vid vb then va else vb),
      me_v2 = (if vid va < vid vb then vb else va),
      left_face = - 1, right_face = - 1, me_orig = - 1, dissolvable = False\<rparr>"

definition empty_fms :: FaceMergeState where
  "empty_fms = \<lparr>fms_face = [], fms_edge = [], edge_map = (\<lambda>_. None)\<rparr>"

text \<open>
  The approximate coordinates of a vertex are left out of the model; the squared
  length that \<^verbatim>\<open>init_face_merge_state\<close> computes from them, and \<^verbatim>\<open>std::sort\<close> with the
  comparator of \<^verbatim>\<open>do_dissolve\<close> (whose order among edges of equal length the C++
  standard leaves open), are arguments.
\<close>

record merge_collaborators =
  length_squared :: "Vert \<Rightarrow> Vert \<Rightarrow> real"
  std_sort :: "(int \<Rightarrow> int \<Rightarrow> bool) \<Rightarrow> int list \<Rightarrow> int list"

text \<open>The body of the loop over the sides of triangle \<open>f\<close> in \<^verbatim>\<open>init_face_merge_state\<close>.\<close>

definition init_side ::
  "bool \<Rightarrow> merge_collaborators \<Rightarrow> Face \<Rightarrow> Vert list \<Rightarrow> int \<Rightarrow> int \<Rightarrow> FaceMergeState \<Rightarrow>
   error + FaceMergeState" where
  "init_side dbg mext tri_f mf_verts f i fms =
     bindE (get_at mf_verts i) (\<lambda>vi.
     bindE (get_at mf_verts ((i + 1) mod 3)) (\<lambda>vnext.
     let new_me = MergeEdge_ctor vi vnext;
         canon_vs = (vid (me_v1 new_me), vid (me_v2 new_me)) in
     bindE (case edge_map fms canon_vs of
              Some k \<Rightarrow> Inr (fms, k)
            | None \<Rightarrow>
                bindE (get_at (edge_orig tri_f) i) (\<lambda>eo.
                let me0 = new_me\<lparr>len_squared := length_squared mext (me_v1 new_me) (me_v2 new_me),
                                 me_orig := eo, dissolvable := (eo = NO_INDEX)\<rparr>;
                    k = int (length (fms_edge fms))
                in Inr (fms\<lparr>fms_edge := fms_edge fms @ [me0],
                             edge_map := (edge_map fms)(canon_vs \<mapsto> k)\<rparr>, k)))
       (\<lambda>(fms1, me_index).
     bindE (get_at (fms_edge fms1) me_index) (\<lambda>me1.
     bindE (if dissolvable me1
            then bindE (get_at (edge_orig tri_f) i) (\<lambda>eo.
                 Inr (if eo \<noteq> NO_INDEX then me1\<lparr>dissolvable := False, me_orig := eo\<rparr>
                      else me1))
            else Inr me1) (\<lambda>me2.
     bindE (if me_v1 me2 = vi
            then bindE (BLI_assert dbg (left_face me2 = - 1)) (\<lambda>_. Inr (me2\<lparr>left_face := f\<rparr>))
            else bindE (BLI_assert dbg (right_face me2 = - 1)) (\<lambda>_. Inr (me2\<lparr>right_face := f\<rparr>)))
       (\<lambda>me3.
     bindE (get_at (fms_face fms1) f) (\<lambda>mf.
     Inr (fms1\<lparr>fms_edge := (fms_edge fms1)[nat me_index := me3],
               fms_face := (fms_face fms1)[nat f := mf\<lparr>mf_edge := mf_edge mf @ [me_index]\<rparr>]\<rparr>))))))))"

definition init_tri ::
  "bool \<Rightarrow> merge_collaborators \<Rightarrow> Mesh \<Rightarrow> int \<Rightarrow> FaceMergeState \<Rightarrow> error + FaceMergeState" where
  "init_tri dbg mext tm t fms =
     bindE (get_at tm t) (\<lambda>tri_f.
     bindE (mapE (get_at (vert tri_f)) [0, 1, 2]) (\<lambda>vs.
     let mf = \<lparr>mf_vert = vs, mf_edge = [], merge_to = - 1, mf_orig = - 1\<rparr>;
         f = int (length (fms_face fms)) in
     foldE (init_side dbg mext tri_f vs f) [0, 1, 2] (fms\<lparr>fms_face := fms_face fms @ [mf]\<rparr>)))"

definition init_face_merge_state ::
  "bool \<Rightarrow> merge_collaborators \<Rightarrow> FaceMergeState \<Rightarrow> int list \<Rightarrow> Mesh \<Rightarrow> error + FaceMergeState" where
  "init_face_merge_state dbg mext fms tris tm = foldE (init_tri dbg mext tm) tris fms"

definition first_index_of_try :: "int list \<Rightarrow> int \<Rightarrow> int" where
  "first_index_of_try xs x = (if x \<in> set xs then int (std_find xs x) else - 1)"

text \<open>
  The first loop of \<^verbatim>\<open>dissolve_leaves_valid_bmesh\<close>, over the positions of the left face
  after the dissolved edge, as long as \<open>ok\<close> holds.
\<close>

fun other_edge_loop :: "FaceMergeState \<Rightarrow> MergeFace \<Rightarrow> int \<Rightarrow> int list \<Rightarrow> error + bool" where
  "other_edge_loop fms mf_left b_left_face [] = Inr True"
| "other_edge_loop fms mf_left b_left_face (a_e_index # rest) =
     bindE (get_at (mf_edge mf_left) a_e_index) (\<lambda>ei.
     bindE (get_at (fms_edge fms) ei) (\<lambda>a_me_cur.
     if right_face a_me_cur = b_left_face then Inr False
     else other_edge_loop fms mf_left b_left_face rest))"

text \<open>
  When the dissolved edge is in both faces, its positions are inside the faces. When
  it is missing from one of them, the assertion fails in a debug build, and in a
  release build the loops of the source run over position \<open>-1\<close>; the model fails
  there.
\<close>

definition dissolve_leaves_valid_bmesh ::
  "bool \<Rightarrow> FaceMergeState \<Rightarrow> MergeEdge \<Rightarrow> int \<Rightarrow> MergeFace \<Rightarrow> MergeFace \<Rightarrow> error + bool" where
  "dissolve_leaves_valid_bmesh dbg fms me me_index mf_left mf_right =
     (let a_edge_start = first_index_of_try (mf_edge mf_left) me_index;
          b_edge_start = first_index_of_try (mf_edge mf_right) me_index in
      bindE (BLI_assert dbg (a_edge_start \<noteq> - 1 \<and> b_edge_start \<noteq> - 1)) (\<lambda>_.
      if a_edge_start = - 1 \<or> b_edge_start = - 1 then Inl IndexOutOfRange
      else
        (let alen = int (length (mf_vert mf_left));
             b_left_face = right_face me in
         if alen = 0 then Inl IndexOutOfRange
         else
           bindE (other_edge_loop fms mf_left b_left_face
                    (map (\<lambda>k. (a_edge_start + 1 + int k) mod alen) [0 ..< nat alen - 1])) (\<lambda>ok.
           if \<not> ok then Inr False
           else Inr (\<not> list_ex (\<lambda>a_v. a_v \<noteq> me_v1 me \<and> a_v \<noteq> me_v2 me
                                  \<and> a_v \<in> set (mf_vert mf_right)) (mf_vert mf_left))))))"

text \<open>
  The middle loop of \<^verbatim>\<open>splice_faces\<close> for position \<open>bi\<close> of the right face; the state
  is the two spliced sequences and the edges.
\<close>

definition splice_right ::
  "MergeFace \<Rightarrow> int \<Rightarrow> int \<Rightarrow> Vert list \<times> int list \<times> MergeEdge list \<Rightarrow>
   error + (Vert list \<times> int list \<times> MergeEdge list)" where
  "splice_right mf_right me_left_face bi st =
     (case st of (splice_vert, splice_edge, edges) \<Rightarrow>
      bindE (get_at (mf_vert mf_right) bi) (\<lambda>v.
      bindE (get_at (mf_edge mf_right) bi) (\<lambda>ei.
      bindE (get_at edges ei) (\<lambda>me_bi.
      Inr (splice_vert @ [v], splice_edge @ [ei],
           edges[nat ei := (if v = me_v1 me_bi then me_bi\<lparr>left_face := me_left_face\<rparr>
                            else me_bi\<lparr>right_face := me_left_face\<rparr>)])))))"

definition copy_left ::
  "MergeFace \<Rightarrow> int \<Rightarrow> Vert list \<times> int list \<Rightarrow> error + (Vert list \<times> int list)" where
  "copy_left mf_left ai st =
     (case st of (splice_vert, splice_edge) \<Rightarrow>
      bindE (get_at (mf_vert mf_left) ai) (\<lambda>v.
      bindE (get_at (mf_edge mf_left) ai) (\<lambda>ei.
      Inr (splice_vert @ [v], splice_edge @ [ei]))))"

definition splice_faces :: "bool \<Rightarrow> FaceMergeState \<Rightarrow> int \<Rightarrow> error + FaceMergeState" where
  "splice_faces dbg fms me_index =
     bindE (get_at (fms_edge fms) me_index) (\<lambda>me.
     let li = left_face me; ri = right_face me in
     bindE (get_at (fms_face fms) li) (\<lambda>mf_left.
     bindE (get_at (fms_face fms) ri) (\<lambda>mf_right.
     let a_edge_start = first_index_of_try (mf_edge mf_left) me_index;
         b_edge_start = first_index_of_try (mf_edge mf_right) me_index in
     bindE (BLI_assert dbg (a_edge_start \<noteq> - 1 \<and> b_edge_start \<noteq> - 1)) (\<lambda>_.
     if a_edge_start = - 1 \<or> b_edge_start = - 1 then Inl IndexOutOfRange
     else
       (let alen = length (mf_vert mf_left); blen = length (mf_vert mf_right) in
        bindE (foldE (copy_left mf_left) (map int [0 ..< nat a_edge_start]) ([], [])) (\<lambda>(sv1, se1).
        bindE (foldE (splice_right mf_right li)
                 (map int ([nat b_edge_start + 1 ..< blen] @ [0 ..< nat b_edge_start]))
                 (sv1, se1, fms_edge fms)) (\<lambda>(sv2, se2, edges2).
        bindE (foldE (copy_left mf_left) (map int [nat a_edge_start + 1 ..< alen]) (sv2, se2))
          (\<lambda>(splice_vert, splice_edge).
        let faces1 = (fms_face fms)[nat ri := mf_right\<lparr>merge_to := li\<rparr>] in
        bindE (get_at faces1 li) (\<lambda>mf_left1.
        bindE (get_at edges2 me_index) (\<lambda>me2.
        Inr (fms\<lparr>fms_face := faces1[nat li := mf_left1\<lparr>mf_vert := splice_vert,
                                                       mf_edge := splice_edge\<rparr>],
                  fms_edge := edges2[nat me_index := me2\<lparr>left_face := - 1, right_face := - 1\<rparr>]\<rparr>)))))))))))"

text \<open>The body of the loop of \<^verbatim>\<open>do_dissolve\<close> over the sorted dissolvable edges.\<close>

definition dissolve_step :: "bool \<Rightarrow> int \<Rightarrow> FaceMergeState \<Rightarrow> error + FaceMergeState" where
  "dissolve_step dbg me_index fms =
     bindE (get_at (fms_edge fms) me_index) (\<lambda>me.
     if left_face me = - 1 \<or> right_face me = - 1 then Inr fms
     else
       bindE (get_at (fms_face fms) (left_face me)) (\<lambda>mf_left.
       bindE (get_at (fms_face fms) (right_face me)) (\<lambda>mf_right.
       bindE (dissolve_leaves_valid_bmesh dbg fms me me_index mf_left mf_right) (\<lambda>ok.
       if \<not> ok then Inr fms else splice_faces dbg fms me_index))))"

definition do_dissolve :: "bool \<Rightarrow> merge_collaborators \<Rightarrow> FaceMergeState \<Rightarrow> error + FaceMergeState" where
  "do_dissolve dbg mext fms =
     (let dissolve_edges = filter (\<lambda>e. dissolvable (fms_edge fms ! nat e))
                             (map int [0 ..< length (fms_edge fms)]) in
      if length dissolve_edges = 0 then Inr fms
      else
        foldE (dissolve_step dbg)
          (std_sort mext (\<lambda>a b. len_squared (fms_edge fms ! nat a) > len_squared (fms_edge fms ! nat b))
             dissolve_edges) fms)"

text \<open>
  Modelled from the spec: \<^verbatim>\<open>Face::cyclic_equal\<close> is declared in \<^verbatim>\<open>BLI_mesh_intersect.hh\<close>,
  which is not among the sources; two faces are cyclically equal when their vertex
  sequences match up to a cyclic rotation.
\<close>

definition cyclic_equal :: "Face \<Rightarrow> Face \<Rightarrow> bool" where
  "cyclic_equal f g =
     (length (vert f) = length (vert g)
      \<and> (vert f = [] \<or> list_ex (\<lambda>k. rotate k (vert f) = vert g) [0 ..< length (vert f)]))"

text \<open>The quad test of \<^verbatim>\<open>merge_tris_for_face\<close> for two triangles: the original quad, if it is found.\<close>

definition merge_quad :: "Mesh \<Rightarrow> Mesh \<Rightarrow> int list \<Rightarrow> error + Face option" where
  "merge_quad tm pm_in tris =
     bindE (get_at tris 0) (\<lambda>t1.
     bindE (get_at tm t1) (\<lambda>tri1.
     bindE (get_at tris 1) (\<lambda>t2.
     bindE (get_at tm t2) (\<lambda>tri2.
     bindE (get_at pm_in (orig tri1)) (\<lambda>in_face.
     if length (vert in_face) = 4 then
       bindE (find_tris_common_edge tri1 tri2) (\<lambda>estarts.
       if fst estarts \<noteq> - 1 then
         bindE (get_at (edge_orig tri1) (fst estarts)) (\<lambda>eo.
         if eo = NO_INDEX then
           (let i0 = fst estarts; i1 = (i0 + 1) mod 3; i2 = (i0 + 2) mod 3;
                j2 = (snd estarts + 2) mod 3 in
            bindE (get_at (vert tri1) i1) (\<lambda>a.
            bindE (get_at (vert tri1) i2) (\<lambda>b.
            bindE (get_at (vert tri1) i0) (\<lambda>c.
            bindE (get_at (vert tri2) j2) (\<lambda>d.
            let tryface = \<lparr>vert = [a, b, c, d], orig = - 1, edge_orig = []\<rparr> in
            Inr (if cyclic_equal tryface in_face then Some in_face else None))))))
         else Inr None)
       else Inr None)
     else Inr None)))))"

definition emit_merged :: "FaceMergeState \<Rightarrow> MergeFace \<Rightarrow> Face list \<Rightarrow> error + Face list" where
  "emit_merged fms mf ans =
     (if merge_to mf = - 1 then
        bindE (mapE (\<lambda>ei. bindE (get_at (fms_edge fms) ei) (\<lambda>me. Inr (me_orig me))) (mf_edge mf))
          (\<lambda>e_orig.
        Inr (ans @ [add_face (mf_vert mf) (mf_orig mf) e_orig]))
      else Inr ans)"

definition merge_tris_for_face ::
  "bool \<Rightarrow> merge_collaborators \<Rightarrow> int list \<Rightarrow> Mesh \<Rightarrow> Mesh \<Rightarrow> error + Face list" where
  "merge_tris_for_face dbg mext tris tm pm_in =
     bindE (if length tris = 1
            then bindE (get_at tris 0) (\<lambda>t. bindE (get_at tm t) (\<lambda>f. Inr ([f], True)))
            else Inr ([], False)) (\<lambda>(ans1, done1).
     bindE (if length tris = 2
            then bindE (merge_quad tm pm_in tris) (\<lambda>q.
                 case q of Some in_face \<Rightarrow> Inr (ans1 @ [in_face], True)
                         | None \<Rightarrow> Inr (ans1, done1))
            else Inr (ans1, done1)) (\<lambda>(ans2, done2).
     if done2 then Inr ans2
     else
       bindE (init_face_merge_state dbg mext empty_fms tris tm) (\<lambda>fms1.
       bindE (do_dissolve dbg mext fms1) (\<lambda>fms2.
       foldE (emit_merged fms2) (fms_face fms2) ans2))))"

section \<open>Dissolving collinear vertices\<close>

text \<open>
  Modelled from the spec: the vertex index of a \<^verbatim>\<open>Mesh\<close> (\<^verbatim>\<open>populate_vert\<close>, \<^verbatim>\<open>vert\<close>,
  \<^verbatim>\<open>lookup_vert\<close>), the positions \<^verbatim>\<open>next_pos\<close> and \<^verbatim>\<open>prev_pos\<close> of a \<^verbatim>\<open>Face\<close>, the exact
  vector operations and \<^verbatim>\<open>erase_face_positions\<close> are not among the sources. The vertex
  index is derived from the faces: the distinct vertices of the faces, here in the
  order of their first occurrence. \<^verbatim>\<open>erase_face_positions\<close> erases the marked
  positions from the vertex sequence of a face, and from its parallel \<open>edge_orig\<close>
  sequence.
\<close>

definition populate_vert :: "Mesh \<Rightarrow> Vert list" where
  "populate_vert pm = rev (remdups (rev (concat (map vert pm))))"

definition lookup_vert :: "Vert list \<Rightarrow> Vert \<Rightarrow> int" where
  "lookup_vert verts v =
     (if v \<in> set verts then int (length (takeWhile (\<lambda>u. u \<noteq> v) verts)) else NO_INDEX)"

definition next_pos :: "Face \<Rightarrow> int \<Rightarrow> int" where
  "next_pos f i = (i + 1) mod int (length (vert f))"

definition prev_pos :: "Face \<Rightarrow> int \<Rightarrow> int" where
  "prev_pos f i = (i + int (length (vert f)) - 1) mod int (length (vert f))"

definition mpq3_sub :: "mpq3 \<Rightarrow> mpq3 \<Rightarrow> mpq3" where
  "mpq3_sub a b = (case (a, b) of ((ax, ay, az), (bx, by, bz)) \<Rightarrow> (ax - bx, ay - by, az - bz))"

definition mpq3_cross :: "mpq3 \<Rightarrow> mpq3 \<Rightarrow> mpq3" where
  "mpq3_cross a b =
     (case (a, b) of ((ax, ay, az), (bx, by, bz)) \<Rightarrow>
        (ay * bz - az * by, az * bx - ax * bz, ax * by - ay * bx))"

definition erase_face_positions :: "Face \<Rightarrow> bool list \<Rightarrow> Face" where
  "erase_face_positions f face_pos_erase =
     f\<lparr>vert := map fst (filter (\<lambda>(v, erase). \<not> erase) (zip (vert f) face_pos_erase)),
       edge_orig := map fst (filter (\<lambda>(eo, erase). \<not> erase) (zip (edge_orig f) face_pos_erase))\<rparr>"

type_synonym neighbors = "(Vert option \<times> Vert option) list"

text \<open>The body of the loop of \<^verbatim>\<open>find_dissolve_verts\<close> over the positions of a face.\<close>

definition neighbor_step ::
  "bool \<Rightarrow> Vert list \<Rightarrow> Face \<Rightarrow> int \<Rightarrow> bool list \<times> neighbors \<Rightarrow> error + (bool list \<times> neighbors)" where
  "neighbor_step dbg verts face i st =
     (case st of (dissolve, neighbors) \<Rightarrow>
      bindE (get_at (vert face) i) (\<lambda>v.
      let v_index = lookup_vert verts v in
      bindE (BLI_assert dbg (v_index \<noteq> NO_INDEX)) (\<lambda>_.
      bindE (get_at dissolve v_index) (\<lambda>d.
      if d then
        bindE (get_at (vert face) (next_pos face i)) (\<lambda>n1.
        bindE (get_at (vert face) (prev_pos face i)) (\<lambda>n2.
        bindE (get_at neighbors v_index) (\<lambda>(f_n1, f_n2).
        if f_n1 \<noteq> None then
          (if \<not> ((Some n1 = f_n2 \<and> Some n2 = f_n1) \<or> (Some n1 = f_n1 \<and> Some n2 = f_n2))
           then Inr (dissolve[nat v_index := False], neighbors)
           else Inr (dissolve, neighbors))
        else Inr (dissolve, neighbors[nat v_index := (Some n1, Some n2)]))))
      else Inr (dissolve, neighbors)))))"

definition neighbor_face ::
  "bool \<Rightarrow> Vert list \<Rightarrow> Face \<Rightarrow> bool list \<times> neighbors \<Rightarrow> error + (bool list \<times> neighbors)" where
  "neighbor_face dbg verts face st =
     foldE (neighbor_step dbg verts face) (map int [0 ..< length (vert face)]) st"

text \<open>The body of the last loop, for the vertex at \<open>v_out\<close>: the final flag of the vertex.\<close>

definition collinear_step :: "bool \<Rightarrow> Vert list \<Rightarrow> bool list \<Rightarrow> neighbors \<Rightarrow> int \<Rightarrow> error + bool" where
  "collinear_step dbg verts dissolve neighbors v_out =
     bindE (get_at dissolve v_out) (\<lambda>d.
     if d then
       bindE (get_at neighbors v_out) (\<lambda>nbrs.
       case fst nbrs of
         None \<Rightarrow> Inr False
       | Some n_first \<Rightarrow>
           bindE (BLI_assert dbg (snd nbrs \<noteq> None)) (\<lambda>_.
           case snd nbrs of
             None \<Rightarrow> Inl NullDereference
           | Some n_second \<Rightarrow>
               bindE (get_at verts v_out) (\<lambda>v.
               let co1 = co_exact n_first; co2 = co_exact n_second; co = co_exact v;
                   dir1 = mpq3_sub co co1; dir2 = mpq3_sub co2 co;
                   cross = mpq3_cross dir1 dir2 in
               Inr (fst cross = 0 \<and> fst (snd cross) = 0 \<and> snd (snd cross) = 0))))
     else Inr False)"

definition find_dissolve_verts :: "bool \<Rightarrow> Mesh \<Rightarrow> error + (bool list \<times> int)" where
  "find_dissolve_verts dbg pm_out =
     (let verts = populate_vert pm_out;
          dissolve0 = map (\<lambda>v. vorig v = NO_INDEX) verts;
          neighbors0 = replicate (length verts) (None, None) in
      bindE (foldE (neighbor_face dbg verts) pm_out (dissolve0, neighbors0)) (\<lambda>(dissolve1, neighbors1).
      bindE (mapE (collinear_step dbg verts dissolve1 neighbors1) (map int [0 ..< length verts]))
        (\<lambda>dissolve.
      Inr (dissolve, int (length (filter (\<lambda>b. b) dissolve))))))"

text \<open>The body of the loop of \<^verbatim>\<open>dissolve_verts\<close> for one face.\<close>

definition dissolve_face :: "bool \<Rightarrow> Vert list \<Rightarrow> bool list \<Rightarrow> Face \<Rightarrow> error + Face" where
  "dissolve_face dbg verts dissolve face =
     bindE (mapE (\<lambda>v. let v_index = lookup_vert verts v in
                       bindE (BLI_assert dbg (v_index \<noteq> NO_INDEX)) (\<lambda>_. get_at dissolve v_index))
              (vert face)) (\<lambda>face_pos_erase.
     let num_erase = length (filter (\<lambda>b. b) face_pos_erase) in
     if num_erase > 0 then Inr (erase_face_positions face face_pos_erase) else Inr face)"

definition dissolve_verts :: "bool \<Rightarrow> Mesh \<Rightarrow> bool list \<Rightarrow> error + Mesh" where
  "dissolve_verts dbg pm dissolve = mapE (dissolve_face dbg (populate_vert pm) dissolve) pm"

section \<open>From the result triangles to the result polygons\<close>

text \<open>The first loop of \<^verbatim>\<open>polymesh_from_trimesh_with_dissolve\<close>: triangle \<open>t\<close> joins its input face.\<close>

definition gather_tri :: "Mesh \<Rightarrow> int \<Rightarrow> int list list \<Rightarrow> error + int list list" where
  "gather_tri tm_out t face_output_tris =
     bindE (get_at tm_out t) (\<lambda>tri_f.
     let in_face = orig tri_f in
     bindE (get_at face_output_tris in_face) (\<lambda>ts.
     Inr (face_output_tris[nat in_face := ts @ [t]])))"

text \<open>
  The body of the second loop. The source guards it with
  \<^verbatim>\<open>num_out_tris_for_face = face_output_tris.size()\<close>; the spec's note suggests that
  \<^verbatim>\<open>face_output_tris[in_f].size()\<close> was meant. The argument \<open>per_face\<close> selects the
  guard: \<open>False\<close> is the source.
\<close>

definition merge_face_step ::
  "bool \<Rightarrow> bool \<Rightarrow> merge_collaborators \<Rightarrow> Mesh \<Rightarrow> Mesh \<Rightarrow> int list list \<Rightarrow> int \<Rightarrow>
   Face list list \<Rightarrow> error + Face list list" where
  "merge_face_step per_face dbg mext tm_out pm_in face_output_tris in_f face_output_face =
     bindE (if per_face
            then bindE (get_at face_output_tris in_f) (\<lambda>ts. Inr (int (length ts)))
            else Inr (int (length face_output_tris))) (\<lambda>num_out_tris_for_face.
     if num_out_tris_for_face = 0 then Inr face_output_face
     else
       bindE (get_at face_output_tris in_f) (\<lambda>ts.
       bindE (merge_tris_for_face dbg mext ts tm_out pm_in) (\<lambda>faces.
       bindE (get_at face_output_face in_f) (\<lambda>_.
       Inr (face_output_face[nat in_f := faces])))))"

definition polymesh_with_guard ::
  "bool \<Rightarrow> bool \<Rightarrow> merge_collaborators \<Rightarrow> Mesh \<Rightarrow> Mesh \<Rightarrow> error + Mesh" where
  "polymesh_with_guard per_face dbg mext tm_out pm_in =
     (let tot_in_face = length pm_in in
      bindE (foldE (gather_tri tm_out) (map int [0 ..< length tm_out])
               (replicate tot_in_face [])) (\<lambda>face_output_tris.
      bindE (foldE (merge_face_step per_face dbg mext tm_out pm_in face_output_tris)
               (map int [0 ..< tot_in_face]) (replicate tot_in_face [])) (\<lambda>face_output_face.
      let pm_out = concat face_output_face in
      bindE (find_dissolve_verts dbg pm_out) (\<lambda>(v_dissolve, count_dissolve).
      if count_dissolve > 0 then dissolve_verts dbg pm_out v_dissolve else Inr pm_out))))"

definition polymesh_from_trimesh_with_dissolve ::
  "bool \<Rightarrow> merge_collaborators \<Rightarrow> Mesh \<Rightarrow> Mesh \<Rightarrow> error + Mesh" where
  "polymesh_from_trimesh_with_dissolve dbg mext tm_out pm_in =
     polymesh_with_guard False dbg mext tm_out pm_in"

definition polymesh_from_trimesh_per_face_guard ::
  "bool \<Rightarrow> merge_collaborators \<Rightarrow> Mesh \<Rightarrow> Mesh \<Rightarrow> error + Mesh" where
  "polymesh_from_trimesh_per_face_guard dbg mext tm_out pm_in =
     polymesh_with_guard True dbg mext tm_out pm_in"

text \<open>
  Three triangles that share the edge from \<open>(1,0,0)\<close> to \<open>(1,0,1)\<close> and use it in the
  same orientation: each is a patch of its own, and the three cells between them are
  numbered as \<^verbatim>\<open>find_cells\<close> numbers them.
\<close>

definition ex_P :: Vert where "ex_P = mk_vert 0 1 0 0"
definition ex_Q :: Vert where "ex_Q = mk_vert 1 1 0 1"

definition ex_fins :: Mesh where
  "ex_fins = [mk_tri ex_P ex_Q (mk_vert 2 0 1 0) 0,
              mk_tri ex_P ex_Q (mk_vert 3 0 (- 1) 0) 1,
              mk_tri ex_P ex_Q (mk_vert 4 (- 1) 0 0) 2]"

definition ex_fins_pinfo :: PatchesInfo where
  "ex_fins_pinfo =
     \<lparr>patch = [\<lparr>tri = [0], cell_above = 0, cell_below = 2\<rparr>,
               \<lparr>tri = [1], cell_above = 1, cell_below = 0\<rparr>,
               \<lparr>tri = [2], cell_above = 2, cell_below = 1\<rparr>],
      tri_patch = [0, 1, 2],
      pp_edge = (\<lambda>pq. if pq \<in> {(0, 1), (1, 0), (0, 2), (2, 0), (1, 2), (2, 1)}
                        then Some (mk_Edge ex_P ex_Q) else None)\<rparr>"

text \<open>
  The patches of the three triangles as \<^verbatim>\<open>find_patches\<close> leaves them, with no cell set
  yet, and the three cells between the three triangles, as \<^verbatim>\<open>find_cells\<close> makes them.
\<close>

definition ex_fins_patches :: PatchesInfo where
  "ex_fins_patches =
     ex_fins_pinfo\<lparr>patch := [\<lparr>tri = [0], cell_above = NO_INDEX, cell_below = NO_INDEX\<rparr>,
                           \<lparr>tri = [1], cell_above = NO_INDEX, cell_below = NO_INDEX\<rparr>,
                           \<lparr>tri = [2], cell_above = NO_INDEX, cell_below = NO_INDEX\<rparr>]\<rparr>"

definition ex_fins_cinfo :: CellsInfo where
  "ex_fins_cinfo = [empty_Cell\<lparr>patches := [0, 1]\<rparr>, empty_Cell\<lparr>patches := [1, 2]\<rparr>,
                    empty_Cell\<lparr>patches := [2, 0]\<rparr>]"

definition ex_arena_vert :: "mpq3 \<Rightarrow> int \<Rightarrow> Vert" where
  "ex_arena_vert co v_orig = \<lparr>vid = 5, co_exact = co, vorig = v_orig\<rparr>"

definition ex_fins_topo :: TriMeshTopology where
  "ex_fins_topo =
     \<lparr>edge_tri = [(1, 2) \<mapsto> [0], (0, 2) \<mapsto> [0], (1, 3) \<mapsto> [1], (0, 3) \<mapsto> [1],
                  (0, 1) \<mapsto> [0, 1, 2], (1, 4) \<mapsto> [2], (0, 4) \<mapsto> [2]],
      vert_edges = [mk_vert 2 0 1 0 \<mapsto> [Edge ex_P (mk_vert 2 0 1 0)],
                    mk_vert 3 0 (- 1) 0 \<mapsto> [Edge ex_P (mk_vert 3 0 (- 1) 0)],
                    ex_P \<mapsto> [Edge ex_P ex_Q],
                    ex_Q \<mapsto> [Edge ex_Q (mk_vert 2 0 1 0), Edge ex_Q (mk_vert 3 0 (- 1) 0),
                             Edge ex_Q (mk_vert 4 (- 1) 0 0)],
                    mk_vert 4 (- 1) 0 0 \<mapsto> [Edge ex_P (mk_vert 4 (- 1) 0 0)]]\<rparr>"

definition ex_dummy_tri :: Face where
  "ex_dummy_tri = add_face [ex_P, ex_Q, ex_arena_vert (2, 0, 0) NO_INDEX] NO_INDEX
                    [NO_INDEX, NO_INDEX, NO_INDEX]"

text \<open>
  Two flat triangles with a fin on their common edge: three triangles on the edge from
  \<open>(1,0,0)\<close> to \<open>(0,1,0)\<close>, all using it in the same orientation. Triangles 0 and 1 lie in the plane
  \<open>z = 0\<close> on the two sides of the edge, with third vertices \<open>(0,0,0)\<close> and \<open>(0,2,0)\<close>;
  triangle 2 rises to \<open>(0,0,1)\<close>. The three triangles meet in the shared edge only.
  With it: its topology; the dummy triangle that \<^verbatim>\<open>find_ambient_cell\<close> makes for it, whose
  third vertex \<open>(2,0,0)\<close> lies in the plane \<open>z = 0\<close> too; and its patches and cells, as
  \<^verbatim>\<open>find_patches\<close> and \<^verbatim>\<open>find_cells\<close> make them.
\<close>

definition ex_W :: Vert where "ex_W = mk_vert 1 0 1 0"

definition ex_tee :: Mesh where
  "ex_tee = [mk_tri ex_P ex_W (mk_vert 2 0 0 0) 0,
             mk_tri ex_P ex_W (mk_vert 3 0 2 0) 1,
             mk_tri ex_P ex_W (mk_vert 4 0 0 1) 2]"

definition ex_tee_topo :: TriMeshTopology where
  "ex_tee_topo =
     \<lparr>edge_tri = [(1, 2) \<mapsto> [0], (0, 2) \<mapsto> [0], (1, 3) \<mapsto> [1], (0, 3) \<mapsto> [1],
                  (0, 1) \<mapsto> [0, 1, 2], (1, 4) \<mapsto> [2], (0, 4) \<mapsto> [2]],
      vert_edges = [mk_vert 2 0 0 0 \<mapsto> [Edge ex_P (mk_vert 2 0 0 0)],
                    mk_vert 3 0 2 0 \<mapsto> [Edge ex_P (mk_vert 3 0 2 0)],
                    ex_P \<mapsto> [Edge ex_P ex_W],
                    ex_W \<mapsto> [Edge ex_W (mk_vert 2 0 0 0), Edge ex_W (mk_vert 3 0 2 0),
                             Edge ex_W (mk_vert 4 0 0 1)],
                    mk_vert 4 0 0 1 \<mapsto> [Edge ex_P (mk_vert 4 0 0 1)]]\<rparr>"

definition ex_tee_dummy :: Face where
  "ex_tee_dummy = add_face [ex_P, ex_W, ex_arena_vert (2, 0, 0) NO_INDEX] NO_INDEX
                    [NO_INDEX, NO_INDEX, NO_INDEX]"

definition ex_tee_pinfo :: PatchesInfo where
  "ex_tee_pinfo =
     \<lparr>patch = [\<lparr>tri = [0], cell_above = 0, cell_below = 2\<rparr>,
               \<lparr>tri = [1], cell_above = 2, cell_below = 1\<rparr>,
               \<lparr>tri = [2], cell_above = 1, cell_below = 0\<rparr>],
      tri_patch = [0, 1, 2],
      pp_edge = (\<lambda>pq. if pq \<in> {(0, 1), (1, 0), (0, 2), (2, 0), (1, 2), (2, 1)}
                        then Some (mk_Edge ex_P ex_W) else None)\<rparr>"

definition ex_tee_patches :: PatchesInfo where
  "ex_tee_patches =
     ex_tee_pinfo\<lparr>patch := [\<lparr>tri = [0], cell_above = NO_INDEX, cell_below = NO_INDEX\<rparr>,
                          \<lparr>tri = [1], cell_above = NO_INDEX, cell_below = NO_INDEX\<rparr>,
                          \<lparr>tri = [2], cell_above = NO_INDEX, cell_below = NO_INDEX\<rparr>]\<rparr>"

definition ex_tee_cinfo :: CellsInfo where
  "ex_tee_cinfo = [empty_Cell\<lparr>patches := [0, 2]\<rparr>, empty_Cell\<lparr>patches := [2, 1]\<rparr>,
                   empty_Cell\<lparr>patches := [1, 0]\<rparr>]"

text \<open>
  Example collaborators: one whose intersectors return their input, and one whose
  intersectors find every triangle degenerate and return the empty mesh.
\<close>

definition ex_ext :: collaborators where
  "ex_ext = \<lparr>trimesh_self_intersect = (\<lambda>tm. tm),
             trimesh_nary_intersect = (\<lambda>tm nshapes shape_fn use_self. tm),
             arena_add_or_find_vert = ex_arena_vert,
             mpq3_orient3d = orient3d_sign\<rparr>"

definition ex_ext_degenerate :: collaborators where
  "ex_ext_degenerate = \<lparr>trimesh_self_intersect = (\<lambda>tm. []),
             trimesh_nary_intersect = (\<lambda>tm nshapes shape_fn use_self. []),
             arena_add_or_find_vert = ex_arena_vert,
             mpq3_orient3d = orient3d_sign\<rparr>"

text \<open>
  What the spec says of the vertex dissolve, in its words. The neighbour pairs of a
  vertex \<open>v\<close> are the pairs (next vertex, previous vertex) of its occurrences in the
  faces; two pairs are the same unordered pair when they are equal or swapped;
  \<open>u, v, w\<close> are collinear when the exact cross product of \<open>v - u\<close> and \<open>w - v\<close> is zero
  in all three components. A vertex is dissolved when it is synthetic, all its
  neighbour pairs are the same unordered pair, and it is collinear with that pair.
\<close>

definition face_events :: "Face \<Rightarrow> (Vert \<times> Vert \<times> Vert) list" where
  "face_events f =
     map (\<lambda>i. (vert f ! i, vert f ! ((i + 1) mod length (vert f)),
                vert f ! ((i + length (vert f) - 1) mod length (vert f))))
       [0 ..< length (vert f)]"

definition neighbor_pairs :: "Mesh \<Rightarrow> Vert \<Rightarrow> (Vert \<times> Vert) list" where
  "neighbor_pairs pm v = map snd (filter (\<lambda>ev. fst ev = v) (concat (map face_events pm)))"

definition same_pair :: "Vert \<times> Vert \<Rightarrow> Vert \<times> Vert \<Rightarrow> bool" where
  "same_pair q r = (q = r \<or> q = (snd r, fst r))"

definition collinear :: "Vert \<Rightarrow> Vert \<Rightarrow> Vert \<Rightarrow> bool" where
  "collinear u v w =
     (mpq3_cross (mpq3_sub (co_exact v) (co_exact u)) (mpq3_sub (co_exact w) (co_exact v))
      = (0, 0, 0))"

definition dissolved :: "Mesh \<Rightarrow> Vert \<Rightarrow> bool" where
  "dissolved pm v =
     (vorig v = NO_INDEX
      \<and> (case neighbor_pairs pm v of
            [] \<Rightarrow> False
          | q # rest \<Rightarrow> list_all (\<lambda>r. same_pair r q) rest \<and> collinear (fst q) v (snd q)))"

text \<open>
  For the proofs about the neighbour loop of \<^verbatim>\<open>find_dissolve_verts\<close>: the effect of one
  position of one face on the two arrays, and the same effect seen from one vertex.
\<close>

definition upd :: "Vert list \<Rightarrow> bool list \<times> neighbors \<Rightarrow> Vert \<times> Vert \<times> Vert \<Rightarrow> bool list \<times> neighbors" where
  "upd verts st ev =
     (case (st, ev) of ((d, nb), (v, n1, n2)) \<Rightarrow>
        let k = nat (lookup_vert verts v) in
        if d ! k then
          (if fst (nb ! k) \<noteq> None then
             (if \<not> ((Some n1 = snd (nb ! k) \<and> Some n2 = fst (nb ! k))
                     \<or> (Some n1 = fst (nb ! k) \<and> Some n2 = snd (nb ! k)))
              then (d[k := False], nb) else (d, nb))
           else (d, nb[k := (Some n1, Some n2)]))
        else (d, nb))"

definition vstep ::
  "Vert \<Rightarrow> bool \<times> Vert option \<times> Vert option \<Rightarrow> Vert \<times> Vert \<times> Vert \<Rightarrow> bool \<times> Vert option \<times> Vert option" where
  "vstep v s ev =
     (if fst ev = v \<and> fst s then
        (if fst (snd s) \<noteq> None then
           (if \<not> ((Some (fst (snd ev)) = snd (snd s) \<and> Some (snd (snd ev)) = fst (snd s))
                   \<or> (Some (fst (snd ev)) = fst (snd s) \<and> Some (snd (snd ev)) = snd (snd s)))
            then (False, snd s) else s)
         else (fst s, Some (fst (snd ev)), Some (snd (snd ev))))
      else s)"

definition proj :: "Vert list \<Rightarrow> Vert \<Rightarrow> bool list \<times> neighbors \<Rightarrow> bool \<times> Vert option \<times> Vert option" where
  "proj verts v st = (fst st ! nat (lookup_vert verts v), snd st ! nat (lookup_vert verts v))"

definition pairs_of :: "Vert \<Rightarrow> (Vert \<times> Vert \<times> Vert) list \<Rightarrow> (Vert \<times> Vert) list" where
  "pairs_of v evs = map snd (filter (\<lambda>ev. fst ev = v) evs)"


text \<open>
  A face with a synthetic vertex in the middle of one side: \<open>(0,0,0)\<close>, \<open>(1,0,0)\<close>,
  \<open>(2,0,0)\<close>, \<open>(2,2,0)\<close>, the second one not an input vertex.
\<close>

definition ex_M :: Vert where
  "ex_M = \<lparr>vid = 1, co_exact = (1, 0, 0), vorig = NO_INDEX\<rparr>"

definition ex_poly :: Mesh where
  "ex_poly = [\<lparr>vert = [mk_vert 0 0 0 0, ex_M, mk_vert 2 2 0 0, mk_vert 3 2 2 0], orig = 0,
               edge_orig = [0, 0, 1, 2]\<rparr>]"


section \<open>What the patches are to satisfy\<close>

text \<open>
  An edge is identified, as by the equality of \<^verbatim>\<open>Edge\<close>, by the ids of its two vertices.
  The key of side \<open>i\<close> of a triangle, the keys of its three sides, the triangles of the mesh
  that have an edge, and the edges that do not have exactly two triangles (which is when
  \<^verbatim>\<open>other_tri_if_manifold\<close> answers \<^verbatim>\<open>NO_INDEX\<close>).
\<close>

definition side_key :: "Face \<Rightarrow> nat \<Rightarrow> int \<times> int" where
  "side_key f i = edge_key (mk_Edge (vert f ! i) (vert f ! ((i + 1) mod 3)))"

definition tri_keys :: "Face \<Rightarrow> (int \<times> int) list" where
  "tri_keys f = map (side_key f) [0, 1, 2]"

definition incident :: "Mesh \<Rightarrow> int \<times> int \<Rightarrow> nat list" where
  "incident tm k = filter (\<lambda>t. k \<in> set (tri_keys (tm ! t))) [0 ..< length tm]"

definition non_manifold :: "Mesh \<Rightarrow> int \<times> int \<Rightarrow> bool" where
  "non_manifold tm k = (length (incident tm k) \<noteq> 2)"

text \<open>
  The triangles that \<open>tri_patch\<close> gives to patch \<open>p\<close>; an edge of a triangle of \<open>p\<close> and
  of a triangle of \<open>q\<close> that is not manifold; and whether \<open>p\<close> and \<open>q\<close> share one.
\<close>

definition patch_tris :: "Mesh \<Rightarrow> PatchesInfo \<Rightarrow> int \<Rightarrow> nat list" where
  "patch_tris tm pinfo p = filter (\<lambda>t. tri_patch pinfo ! t = p) [0 ..< length tm]"

definition shared_edge :: "Mesh \<Rightarrow> PatchesInfo \<Rightarrow> int \<Rightarrow> int \<Rightarrow> int \<times> int \<Rightarrow> bool" where
  "shared_edge tm pinfo p q k =
     (non_manifold tm k
      \<and> list_ex (\<lambda>t. k \<in> set (tri_keys (tm ! t))) (patch_tris tm pinfo p)
      \<and> list_ex (\<lambda>t. k \<in> set (tri_keys (tm ! t))) (patch_tris tm pinfo q))"

definition share_non_manifold :: "Mesh \<Rightarrow> PatchesInfo \<Rightarrow> int \<Rightarrow> int \<Rightarrow> bool" where
  "share_non_manifold tm pinfo p q =
     list_ex (shared_edge tm pinfo p q)
       (concat (map (\<lambda>t. tri_keys (tm ! t)) (patch_tris tm pinfo p)))"

text \<open>
  For the proofs: what the topology holds once the incidences \<open>R\<close> have been added, and
  what it holds at the end of the constructor.
\<close>

definition topo_inv :: "(int \<times> (int \<times> int)) set \<Rightarrow> TriMeshTopology \<Rightarrow> bool" where
  "topo_inv R topo =
     (\<forall>k. case edge_tri topo k of
             None \<Rightarrow> (\<forall>t. (t, k) \<notin> R)
           | Some ts \<Rightarrow> distinct ts \<and> set ts = {t. (t, k) \<in> R})"

definition incidences :: "Mesh \<Rightarrow> int list \<Rightarrow> (int \<times> (int \<times> int)) set" where
  "incidences tm ts = {(t, k). t \<in> set ts \<and> k \<in> set (tri_keys (tm ! nat t))}"

definition topo_ok :: "Mesh \<Rightarrow> TriMeshTopology \<Rightarrow> bool" where
  "topo_ok tm topo =
     (\<forall>k. case edge_tri topo k of
             None \<Rightarrow> incident tm k = []
           | Some ts \<Rightarrow> distinct ts \<and> set ts = int ` set (incident tm k))"

text \<open>
  For the proofs: the invariants of the loops of \<^verbatim>\<open>find_patches\<close>. The incidence map is
  symmetric; an entry is a non-manifold edge shared by two different patches; every such
  pair of assigned triangles has an entry; \<open>tri_patch\<close> and the triangle lists of the
  patches agree; a step of the incidence loops changes the incidence map only, and only by
  adding entries.
\<close>

definition shares :: "Mesh \<Rightarrow> PatchesInfo \<Rightarrow> int \<Rightarrow> int \<Rightarrow> int \<times> int \<Rightarrow> bool" where
  "shares tm pinfo p q k =
     (p \<noteq> NO_INDEX \<and> q \<noteq> NO_INDEX
      \<and> (\<exists>t1 t2. t1 < length tm \<and> t2 < length tm
            \<and> tri_patch pinfo ! t1 = p \<and> tri_patch pinfo ! t2 = q
            \<and> k \<in> set (tri_keys (tm ! t1)) \<and> k \<in> set (tri_keys (tm ! t2))
            \<and> non_manifold tm k))"

definition pp_sym :: "PatchesInfo \<Rightarrow> bool" where
  "pp_sym pinfo = (\<forall>p q. pp_edge pinfo (p, q) = None \<longleftrightarrow> pp_edge pinfo (q, p) = None)"

definition pp_sound :: "Mesh \<Rightarrow> PatchesInfo \<Rightarrow> bool" where
  "pp_sound tm pinfo =
     (\<forall>p q e. pp_edge pinfo (p, q) = Some e \<longrightarrow> p \<noteq> q \<and> shares tm pinfo p q (edge_key e))"

definition pp_complete :: "Mesh \<Rightarrow> PatchesInfo \<Rightarrow> bool" where
  "pp_complete tm pinfo =
     (\<forall>p q k. p \<noteq> q \<and> shares tm pinfo p q k \<longrightarrow> pp_edge pinfo (p, q) \<noteq> None)"

definition pp_inv :: "Mesh \<Rightarrow> PatchesInfo \<Rightarrow> bool" where
  "pp_inv tm pinfo = (length (tri_patch pinfo) = length tm \<and> pp_sym pinfo \<and> pp_sound tm pinfo)"

definition pp_ext :: "PatchesInfo \<Rightarrow> PatchesInfo \<Rightarrow> bool" where
  "pp_ext pinfo pinfo' =
     (tri_patch pinfo' = tri_patch pinfo \<and> patch pinfo' = patch pinfo
      \<and> (\<forall>x. pp_edge pinfo x \<noteq> None \<longrightarrow> pp_edge pinfo' x \<noteq> None))"

definition pinfo_wf :: "nat \<Rightarrow> PatchesInfo \<Rightarrow> bool" where
  "pinfo_wf n pinfo =
     (length (tri_patch pinfo) = n
      \<and> (\<forall>t < n. tri_patch pinfo ! t = NO_INDEX
            \<or> (0 \<le> tri_patch pinfo ! t \<and> nat (tri_patch pinfo ! t) < length (patch pinfo)))
      \<and> (\<forall>p < length (patch pinfo). distinct (tri (patch pinfo ! p))
            \<and> set (tri (patch pinfo ! p)) = {int t |t. t < n \<and> tri_patch pinfo ! t = int p}))"

definition find_inv :: "Mesh \<Rightarrow> PatchesInfo \<Rightarrow> bool" where
  "find_inv tm pinfo = (pinfo_wf (length tm) pinfo \<and> pp_inv tm pinfo \<and> pp_complete tm pinfo)"

definition patches_nonempty :: "PatchesInfo \<Rightarrow> bool" where
  "patches_nonempty pinfo =
     (\<forall>p < length (patch pinfo). \<exists>t < length (tri_patch pinfo). tri_patch pinfo ! t = int p)"

section \<open>Properties of the keep predicate\<close>

lemma BLI_assert_holds [simp]: "c \<Longrightarrow> BLI_assert dbg c = Inr ()"
  by (simp add: BLI_assert_def)

lemma BLI_assert_release [simp]: "BLI_assert False c = Inr ()"
  by (simp add: BLI_assert_def)

lemma isect_loop_set: "isect_loop w = (\<forall>x \<in> set w. x \<noteq> 0)"
  by (induction w) auto

lemma union_loop_set: "union_loop w = (\<exists>x \<in> set w. x \<noteq> 0)"
  by (induction w) auto

lemma difference_loop_set: "difference_loop w = (\<exists>x \<in> set w. x = 0)"
  by (induction w) auto

lemma isect_loop_all: "isect_loop w = (\<forall>i < length w. w ! i \<noteq> 0)"
  by (simp add: isect_loop_set all_set_conv_all_nth)

lemma union_loop_ex: "union_loop w = (\<exists>i < length w. w ! i \<noteq> 0)"
  unfolding union_loop_set by (metis in_set_conv_nth)

lemma difference_loop_tail:
  "difference_loop (drop 1 w) = (\<exists>i. 1 \<le> i \<and> i < length w \<and> w ! i = 0)"
proof (cases w)
  case Nil
  then show ?thesis by simp
next
  case (Cons x xs)
  have "(\<exists>i. 1 \<le> i \<and> i < length (x # xs) \<and> (x # xs) ! i = 0) = (\<exists>j < length xs. xs ! j = 0)"
  proof
    assume "\<exists>i. 1 \<le> i \<and> i < length (x # xs) \<and> (x # xs) ! i = 0"
    then obtain i where i: "1 \<le> i" "i < length (x # xs)" "(x # xs) ! i = 0" by blast
    then obtain j where "i = Suc j" by (cases i) auto
    with i show "\<exists>j < length xs. xs ! j = 0" by auto
  next
    assume "\<exists>j < length xs. xs ! j = 0"
    then obtain j where "j < length xs" "xs ! j = 0" by blast
    then have "1 \<le> Suc j \<and> Suc j < length (x # xs) \<and> (x # xs) ! Suc j = 0" by simp
    then show "\<exists>i. 1 \<le> i \<and> i < length (x # xs) \<and> (x # xs) ! i = 0" by blast
  qed
  moreover have "difference_loop xs = (\<exists>j < length xs. xs ! j = 0)"
    unfolding difference_loop_set by (metis in_set_conv_nth)
  ultimately show ?thesis using Cons by simp
qed

text \<open>
  Claim C3. For every non-empty winding vector \<open>w\<close> of length \<open>n\<close>, in either build,
  \<open>apply_bool_op\<close> returns: for Intersection, true iff every \<open>w[i] \<noteq> 0\<close>; for Union,
  true iff some \<open>w[i] \<noteq> 0\<close>; for Difference, true iff \<open>w[0] \<noteq> 0\<close> and (\<open>n = 1\<close> or
  \<open>w[i] = 0\<close> for some \<open>i \<ge> 1\<close>).
\<close>

theorem apply_bool_op_keep:
  assumes "w \<noteq> []"
  shows "apply_bool_op dbg (optype_code BOOLEAN_ISECT) w = Inr (\<forall>i < length w. w ! i \<noteq> 0)
       \<and> apply_bool_op dbg (optype_code BOOLEAN_UNION) w = Inr (\<exists>i < length w. w ! i \<noteq> 0)
       \<and> apply_bool_op dbg (optype_code BOOLEAN_DIFFERENCE) w =
           Inr (w ! 0 \<noteq> 0 \<and> (length w = 1 \<or> (\<exists>i. 1 \<le> i \<and> i < length w \<and> w ! i = 0)))"
proof -
  from assms have len: "0 < length w" by simp
  have w0: "get_at w 0 = Inr (w ! 0)"
    using len by (simp add: get_at_def)
  have i: "apply_bool_op dbg (optype_code BOOLEAN_ISECT) w = Inr (\<forall>i < length w. w ! i \<noteq> 0)"
    using len by (simp add: apply_bool_op_def isect_loop_all)
  have u: "apply_bool_op dbg (optype_code BOOLEAN_UNION) w = Inr (\<exists>i < length w. w ! i \<noteq> 0)"
    using len by (simp add: apply_bool_op_def union_loop_ex)
  have d: "apply_bool_op dbg (optype_code BOOLEAN_DIFFERENCE) w =
           Inr (w ! 0 \<noteq> 0 \<and> (length w = 1 \<or> (\<exists>i. 1 \<le> i \<and> i < length w \<and> w ! i = 0)))"
    unfolding apply_bool_op_def Let_def using len
    by (simp add: w0 difference_loop_tail del: drop_Suc_Cons One_nat_def)
  from i u d show ?thesis by blast
qed

theorem apply_bool_op_keep_witness:
  "[1, 0] \<noteq> ([] :: int list)
   \<and> apply_bool_op True (optype_code BOOLEAN_ISECT) [1, 0] = Inr False
   \<and> apply_bool_op True (optype_code BOOLEAN_UNION) [1, 0] = Inr True
   \<and> apply_bool_op True (optype_code BOOLEAN_DIFFERENCE) [1, 0] = Inr True"
proof -
  have ne: "[1, 0] \<noteq> ([] :: int list)" by simp
  have "(\<forall>i < length [1, 0 :: int]. [1, 0 :: int] ! i \<noteq> 0) = False"
    by (auto intro: exI [of _ 1])
  moreover have "(\<exists>i < length [1, 0 :: int]. [1, 0 :: int] ! i \<noteq> 0) = True"
    by (auto intro: exI [of _ 0])
  moreover have "([1, 0 :: int] ! 0 \<noteq> 0 \<and> (length [1, 0 :: int] = 1 \<or>
      (\<exists>i. 1 \<le> i \<and> i < length [1, 0 :: int] \<and> [1, 0 :: int] ! i = 0))) = True"
    by (auto intro: exI [of _ 1])
  ultimately show ?thesis
    using apply_bool_op_keep [OF ne, of True] by simp
qed

section \<open>Winding propagation across a patch\<close>









section \<open>The extractor\<close>

lemma flip_tri_reversed:
  assumes "is_tri f" "length (edge_orig f) = 3"
  shows "flip_tri f = Inr (reversed_face f)"
proof -
  from assms(1) obtain a b c where v: "vert f = [a, b, c]"
    by (auto simp: is_tri_def length_Suc_conv numeral_3_eq_3)
  from assms(2) obtain x y z where e: "edge_orig f = [x, y, z]"
    by (auto simp: length_Suc_conv numeral_3_eq_3)
  have "rotate 2 (rev [a, b, c]) = [a, c, b]"
    by (simp add: numeral_2_eq_2 rotate1_def)
  then show ?thesis
    by (simp add: flip_tri_def reversed_face_def add_face_def v e get_at_def)
qed

lemma reversed_face_sides:
  assumes "is_tri f" "length (edge_orig f) = 3" "i < 3"
  shows "side (reversed_face f) i = side f (2 - i)"
proof -
  from assms(1) obtain a b c where v: "vert f = [a, b, c]"
    by (auto simp: is_tri_def length_Suc_conv numeral_3_eq_3)
  from assms(2) obtain x y z where e: "edge_orig f = [x, y, z]"
    by (auto simp: length_Suc_conv numeral_3_eq_3)
  have "rotate 2 (rev [a, b, c]) = [a, c, b]"
    by (simp add: numeral_2_eq_2 rotate1_def)
  then have rf: "reversed_face f = \<lparr>vert = [a, c, b], orig = orig f, edge_orig = [z, y, x]\<rparr>"
    by (simp add: reversed_face_def v e)
  from assms(3) consider "i = 0" | "i = 1" | "i = 2" by linarith
  then show ?thesis
    by cases (auto simp: side_def rf v e)
qed

lemma extract_tri_step:
  assumes ok: "extract_inputs_ok tm pinfo cinfo" and t: "t < length tm"
  shows "extract_tri tm pinfo cinfo (int t) out =
         Inr (if flags_differ pinfo cinfo t then out @ [emitted tm pinfo cinfo t] else out)"
proof -
  let ?p = "tri_patch pinfo ! t"
  let ?pa = "patch pinfo ! nat ?p"
  from ok t have tp: "get_at (tri_patch pinfo) (int t) = Inr ?p"
    by (simp add: extract_inputs_ok_def get_at_def)
  from ok t have "?p \<in> set (take (length tm) (tri_patch pinfo))"
    by (auto simp: extract_inputs_ok_def in_set_conv_nth intro!: exI [of _ t])
  with ok have pr: "0 \<le> ?p" "nat ?p < length (patch pinfo)"
    by (auto simp: extract_inputs_ok_def list_all_iff)
  then have gp: "get_at (patch pinfo) ?p = Inr ?pa"
    by (simp add: get_at_def)
  from pr have "?pa \<in> set (patch pinfo)" by simp
  with ok have cr: "0 \<le> cell_above ?pa" "nat (cell_above ?pa) < length cinfo"
      "0 \<le> cell_below ?pa" "nat (cell_below ?pa) < length cinfo"
    by (auto simp: extract_inputs_ok_def list_all_iff)
  then have ga: "get_at cinfo (cell_above ?pa) = Inr (cell_above_of pinfo cinfo t)"
    and gb: "get_at cinfo (cell_below ?pa) = Inr (cell_below_of pinfo cinfo t)"
    by (simp_all add: get_at_def cell_above_of_def cell_below_of_def)
  from t have gf: "get_at tm (int t) = Inr (tm ! t)"
    by (simp add: get_at_def)
  from ok t have "is_tri (tm ! t)" "length (edge_orig (tm ! t)) = 3"
    by (auto simp: extract_inputs_ok_def list_all_length)
  then have fl: "flip_tri (tm ! t) = Inr (reversed_face (tm ! t))"
    by (rule flip_tri_reversed)
  show ?thesis
    unfolding extract_tri_def tp gp ga gb bindE_Inr
    by (simp add: gf fl flags_differ_def emitted_def Let_def)
qed

lemma extract_loop:
  assumes ok: "extract_inputs_ok tm pinfo cinfo"
  shows "\<forall>t \<in> set ts. t < length tm \<Longrightarrow>
         foldE (extract_tri tm pinfo cinfo) (map int ts) out =
         Inr (out @ map (emitted tm pinfo cinfo) (filter (flags_differ pinfo cinfo) ts))"
proof (induction ts arbitrary: out)
  case Nil
  then show ?case by simp
next
  case (Cons t ts)
  then have t: "t < length tm" by simp
  show ?case
    using Cons by (simp add: extract_tri_step [OF ok t])
qed

text \<open>
  Claim C4. On a triangle mesh whose triangles all have a patch with two existing
  cells, the extractor returns, in mesh order, exactly the triangles whose patch's
  two cells have differing flag. Such a triangle is emitted with its orientation
  reversed iff \<open>cell_above.flag\<close> is true, and unchanged otherwise; in the reversed
  triangle every side carries the \<open>edge_orig\<close> it carried in the input triangle, and
  the face's \<open>orig\<close> is kept.
\<close>

theorem extract_from_flag_diffs_exact:
  assumes ok: "extract_inputs_ok tm pinfo cinfo"
  shows "extract_from_flag_diffs tm pinfo cinfo =
           Inr (map (\<lambda>t. if flag (cell_above_of pinfo cinfo t) then reversed_face (tm ! t) else tm ! t)
                  (filter (\<lambda>t. flag (cell_above_of pinfo cinfo t) \<noteq> flag (cell_below_of pinfo cinfo t))
                     [0 ..< length tm]))
       \<and> (\<forall>t < length tm. \<forall>i < 3.
            side (reversed_face (tm ! t)) i = side (tm ! t) (2 - i)
          \<and> orig (reversed_face (tm ! t)) = orig (tm ! t)
          \<and> vert (reversed_face (tm ! t)) = [vert (tm ! t) ! 0, vert (tm ! t) ! 2, vert (tm ! t) ! 1]
          \<and> edge_orig (reversed_face (tm ! t)) = rev (edge_orig (tm ! t)))"
proof -
  have a: "extract_from_flag_diffs tm pinfo cinfo =
      Inr (map (emitted tm pinfo cinfo) (filter (flags_differ pinfo cinfo) [0 ..< length tm]))"
    unfolding extract_from_flag_diffs_def
    using extract_loop [OF ok, of "[0 ..< length tm]" "[]"] by simp
  have e: "emitted tm pinfo cinfo =
      (\<lambda>t. if flag (cell_above_of pinfo cinfo t) then reversed_face (tm ! t) else tm ! t)"
    by (rule ext) (simp add: emitted_def)
  have d: "flags_differ pinfo cinfo =
      (\<lambda>t. flag (cell_above_of pinfo cinfo t) \<noteq> flag (cell_below_of pinfo cinfo t))"
    by (rule ext) (simp add: flags_differ_def)
  have b: "side (reversed_face (tm ! t)) i = side (tm ! t) (2 - i)
          \<and> orig (reversed_face (tm ! t)) = orig (tm ! t)
          \<and> vert (reversed_face (tm ! t)) = [vert (tm ! t) ! 0, vert (tm ! t) ! 2, vert (tm ! t) ! 1]
          \<and> edge_orig (reversed_face (tm ! t)) = rev (edge_orig (tm ! t))"
    if "t < length tm" "i < 3" for t i
  proof -
    from ok that have tr: "is_tri (tm ! t)" "length (edge_orig (tm ! t)) = 3"
      by (auto simp: extract_inputs_ok_def list_all_length)
    from tr(1) obtain x y z where v: "vert (tm ! t) = [x, y, z]"
      by (auto simp: is_tri_def length_Suc_conv numeral_3_eq_3)
    have "rotate 2 (rev [x, y, z]) = [x, z, y]"
      by (simp add: numeral_2_eq_2 rotate1_def)
    with reversed_face_sides [OF tr that(2)] v show ?thesis
      by (simp add: reversed_face_def)
  qed
  from a b show ?thesis unfolding e d by blast
qed

theorem extract_from_flag_diffs_exact_witness:
  "extract_inputs_ok ex_tm ex_pinfo ex_flagged
   \<and> extract_from_flag_diffs ex_tm ex_pinfo ex_flagged =
       Inr [\<lparr>vert = [mk_vert 0 0 0 0, mk_vert 2 0 1 0, mk_vert 1 1 0 0], orig = 0,
             edge_orig = [2, 1, 0]\<rparr>]"
proof -
  have ok: "extract_inputs_ok ex_tm ex_pinfo ex_flagged"
    by (simp add: extract_inputs_ok_def ex_tm_def ex_pinfo_def ex_flagged_def ex_patch_def
        ex_cell_def mk_tri_def is_tri_def)
  have a: "flag (cell_above_of ex_pinfo ex_flagged 0)"
    by (simp add: cell_above_of_def ex_pinfo_def ex_flagged_def ex_patch_def ex_cell_def)
  have b: "\<not> flag (cell_below_of ex_pinfo ex_flagged 0)"
    by (simp add: cell_below_of_def ex_pinfo_def ex_flagged_def ex_patch_def ex_cell_def)
  have r: "reversed_face (ex_tm ! 0) =
      \<lparr>vert = [mk_vert 0 0 0 0, mk_vert 2 0 1 0, mk_vert 1 1 0 0], orig = 0, edge_orig = [2, 1, 0]\<rparr>"
    by (simp add: reversed_face_def ex_tm_def mk_tri_def numeral_2_eq_2 rotate1_def)
  have l: "[0 ..< length ex_tm] = [0]"
    by (simp add: ex_tm_def)
  from extract_from_flag_diffs_exact [OF ok, THEN conjunct1] ok show ?thesis
    by (simp add: l a b r)
qed

section \<open>The radial sort\<close>

lemma signed_index_error: "signed_index tm e t = Inl err \<Longrightarrow> err = IndexOutOfRange"
  by (auto simp: signed_index_def find_flap_vert_def bindE_def get_at_def
      split: sum.splits if_splits)

lemma signed_index_extra:
  "int (length tm) \<le> EXTRA_TRI_INDEX \<Longrightarrow> signed_index tm e EXTRA_TRI_INDEX = Inl IndexOutOfRange"
  by (simp add: signed_index_def get_at_def)

lemma mapE_signed_index_error:
  "mapE (signed_index tm e) g = Inl err \<Longrightarrow> err = IndexOutOfRange"
proof (induction g arbitrary: err)
  case Nil
  then show ?case by simp
next
  case (Cons t g)
  show ?case
  proof (cases "signed_index tm e t")
    case (Inl a)
    with Cons.prems signed_index_error [OF Inl] show ?thesis by simp
  next
    case (Inr y)
    with Cons.prems Cons.IH show ?thesis by (auto split: sum.splits)
  qed
qed

lemma mapE_signed_index_extra:
  assumes sz: "int (length tm) \<le> EXTRA_TRI_INDEX"
  shows "EXTRA_TRI_INDEX \<in> set g \<Longrightarrow> mapE (signed_index tm e) g = Inl IndexOutOfRange"
proof (induction g)
  case Nil
  then show ?case by simp
next
  case (Cons t g)
  show ?case
  proof (cases "signed_index tm e t")
    case (Inl a)
    with signed_index_error [OF Inl] show ?thesis by simp
  next
    case (Inr y)
    with signed_index_extra [OF sz, of e] have "t \<noteq> EXTRA_TRI_INDEX" by auto
    with Cons.prems have "EXTRA_TRI_INDEX \<in> set g" by simp
    from Cons.IH [OF this] Inr show ?thesis by simp
  qed
qed

lemma sort_by_signed_triangle_index_error:
  "sort_by_signed_triangle_index tm e g = Inl err \<Longrightarrow> err = IndexOutOfRange"
  by (cases "mapE (signed_index tm e) g")
    (auto simp: sort_by_signed_triangle_index_def dest: mapE_signed_index_error)

lemma sort_by_signed_triangle_index_extra:
  "int (length tm) \<le> EXTRA_TRI_INDEX \<Longrightarrow> EXTRA_TRI_INDEX \<in> set g \<Longrightarrow>
   sort_by_signed_triangle_index tm e g = Inl IndexOutOfRange"
  by (simp add: sort_by_signed_triangle_index_def mapE_signed_index_extra)

text \<open>
  Claim C5. The claim has \<^verbatim>\<open>sort_tris_around_edge\<close> return the merged groups for every
  non-empty span of triangles that all contain \<open>e\<close>, and the spec names the synthetic extra
  triangle, of index \<open>EXTRA_TRI_INDEX\<close>, as a member of such spans. The code uses
  \<^verbatim>\<open>extra_tri\<close> for that index in the classification loop only:
  \<^verbatim>\<open>sort_by_signed_triangle_index\<close> reads \<^verbatim>\<open>tm.face(g[i])\<close> for every member of a coplanar
  group of more than one triangle, and the pivot is read as \<^verbatim>\<open>tm.face(t0)\<close>. So whenever
  the classification puts the extra triangle into a coplanar group together with
  another triangle, and whenever the pivot is the extra triangle, the function reads
  face \<open>EXTRA_TRI_INDEX\<close> of the mesh, which is out of range, in either build.
\<close>

theorem sort_tris_around_edge_extra_tri:
  assumes ne: "tris \<noteq> []" and sz: "int (length tm) \<le> EXTRA_TRI_INDEX"
    and p: "get_at tm t0 = Inr tri0"
    and c: "classify_tris dbg orient3d tm e tri0 extra_tri tris = Inr (g1, g2, g3, g4)"
    and x: "(1 < length g1 \<and> EXTRA_TRI_INDEX \<in> set g1)
          \<or> (1 < length g2 \<and> EXTRA_TRI_INDEX \<in> set g2)"
  shows "sort_tris_around_edge dbg orient3d tm e tris t0 extra_tri = Inl IndexOutOfRange
       \<and> sort_tris_around_edge dbg orient3d tm e tris EXTRA_TRI_INDEX extra_tri
           = Inl IndexOutOfRange"
proof
  show "sort_tris_around_edge dbg orient3d tm e tris t0 extra_tri = Inl IndexOutOfRange"
  proof (cases "1 < length g1 \<and> EXTRA_TRI_INDEX \<in> set g1")
    case True
    with sort_by_signed_triangle_index_extra [OF sz, of g1 e]
    have "(if 1 < length g1 then sort_by_signed_triangle_index tm e g1 else Inr g1)
        = Inl IndexOutOfRange"
      by simp
    then show ?thesis
      by (subst sort_tris_around_edge.simps) (simp add: ne p c)
  next
    case False
    with x have g2: "1 < length g2" "EXTRA_TRI_INDEX \<in> set g2" by auto
    with sort_by_signed_triangle_index_extra [OF sz, of g2 e]
    have s2: "(if 1 < length g2 then sort_by_signed_triangle_index tm e g2 else Inr g2)
        = Inl IndexOutOfRange"
      by simp
    show ?thesis
    proof (cases "if 1 < length g1 then sort_by_signed_triangle_index tm e g1 else Inr g1")
      case (Inl err)
      then have "err = IndexOutOfRange"
        by (auto split: if_splits dest: sort_by_signed_triangle_index_error)
      with Inl show ?thesis
        by (subst sort_tris_around_edge.simps) (simp add: ne p c)
    next
      case (Inr g1s)
      with s2 show ?thesis
        by (subst sort_tris_around_edge.simps) (simp add: ne p c)
    qed
  qed
next
  from sz have "get_at tm EXTRA_TRI_INDEX = Inl IndexOutOfRange"
    by (simp add: get_at_def)
  then show "sort_tris_around_edge dbg orient3d tm e tris EXTRA_TRI_INDEX extra_tri
      = Inl IndexOutOfRange"
    by (subst sort_tris_around_edge.simps) (simp add: ne)
qed

text \<open>
  The failing input: the call that \<^verbatim>\<open>find_ambient_cell\<close> makes on the two flat
  triangles with a fin on their common edge. The span is \<open>[0, 1, 2, EXTRA_TRI_INDEX]\<close> with pivot 0, and every
  triangle of it contains the edge. Triangle 1 and the dummy triangle both lie in the
  plane of the pivot and have another flap vertex, so both are put in \<open>g2\<close>, and the sort
  of \<open>g2\<close> by signed index reads face \<open>EXTRA_TRI_INDEX\<close> of the mesh. \<^verbatim>\<open>find_patches\<close>,
  \<^verbatim>\<open>find_cells\<close> and \<^verbatim>\<open>patch_cell_graph_ok\<close> succeed on this mesh, so \<^verbatim>\<open>boolean_trimesh\<close>
  reaches \<^verbatim>\<open>find_ambient_cell\<close> and fails there, in either build.
\<close>

lemma ex_tee_topo_ctor: "TriMeshTopology_ctor dbg ex_tee = Inr ex_tee_topo"
  by (simp add: TriMeshTopology_ctor_def ex_tee_def topo_add_tri_def mk_tri_def is_tri_def
      get_at_def topo_add_side_def empty_topo_def Let_def mk_Edge_def ex_P_def ex_W_def
      mk_vert_def edge_key_def append_non_duplicates_def append_non_duplicates_edge_def
      edge_eq_def upt_rec ex_tee_topo_def)

lemma ex_tee_faces:
  "get_at ex_tee 0 = Inr (mk_tri ex_P ex_W (mk_vert 2 0 0 0) 0)"
  "get_at ex_tee 1 = Inr (mk_tri ex_P ex_W (mk_vert 3 0 2 0) 1)"
  "get_at ex_tee 2 = Inr (mk_tri ex_P ex_W (mk_vert 4 0 0 1) 2)"
  "length ex_tee = 3"
  by (simp_all add: ex_tee_def get_at_def)

lemma ex_tee_flap:
  "find_flap_vert (mk_tri ex_P ex_W c f_orig) (Edge ex_P ex_W) = Inr (Some c, False)"
  "find_flap_vert ex_tee_dummy (Edge ex_P ex_W) = Inr (Some (ex_arena_vert (2, 0, 0) NO_INDEX), False)"
  by (simp_all add: find_flap_vert_def mk_tri_def get_at_def ex_tee_dummy_def add_face_def)

lemma ex_tee_orient:
  "orient3d_sign (co_exact ex_P) (co_exact ex_W) (0, 0, 0) (0, 2, 0) = 0"
  "orient3d_sign (co_exact ex_P) (co_exact ex_W) (0, 0, 0) (0, 0, 1) = - 1"
  "orient3d_sign (co_exact ex_P) (co_exact ex_W) (0, 0, 0) (2, 0, 0) = 0"
  by (simp_all add: orient3d_sign_def ex_P_def ex_W_def mk_vert_def Let_def)

lemma ex_tee_class:
  "sort_tris_class dbg orient3d_sign (mk_tri ex_P ex_W (mk_vert 3 0 2 0) 1)
     (mk_tri ex_P ex_W (mk_vert 2 0 0 0) 0) (Edge ex_P ex_W) = Inr 2"
  "sort_tris_class dbg orient3d_sign (mk_tri ex_P ex_W (mk_vert 4 0 0 1) 2)
     (mk_tri ex_P ex_W (mk_vert 2 0 0 0) 0) (Edge ex_P ex_W) = Inr 4"
  "sort_tris_class dbg orient3d_sign ex_tee_dummy
     (mk_tri ex_P ex_W (mk_vert 2 0 0 0) 0) (Edge ex_P ex_W) = Inr 2"
proof -
  have v: "get_at (vert (mk_tri a b c f_orig)) 0 = Inr a"
    "get_at (vert (mk_tri a b c f_orig)) 1 = Inr b"
    "get_at (vert (mk_tri a b c f_orig)) 2 = Inr c" for a b c f_orig
    by (simp_all add: mk_tri_def get_at_def)
  have co: "co_exact (mk_vert i x y z) = (x, y, z)" "co_exact (ex_arena_vert q o') = q"
    for i x y z q o'
    by (simp_all add: mk_vert_def ex_arena_vert_def)
  have n: "mk_vert 3 0 2 0 \<noteq> mk_vert 2 0 0 0"
    "ex_arena_vert (2, 0, 0) NO_INDEX \<noteq> mk_vert 2 0 0 0"
    by (simp_all add: mk_vert_def ex_arena_vert_def)
  show "sort_tris_class dbg orient3d_sign (mk_tri ex_P ex_W (mk_vert 3 0 2 0) 1)
     (mk_tri ex_P ex_W (mk_vert 2 0 0 0) 0) (Edge ex_P ex_W) = Inr 2"
    by (simp add: sort_tris_class_def v ex_tee_flap co ex_tee_orient Let_def n)
  show "sort_tris_class dbg orient3d_sign (mk_tri ex_P ex_W (mk_vert 4 0 0 1) 2)
     (mk_tri ex_P ex_W (mk_vert 2 0 0 0) 0) (Edge ex_P ex_W) = Inr 4"
    by (simp add: sort_tris_class_def v ex_tee_flap co ex_tee_orient Let_def)
  show "sort_tris_class dbg orient3d_sign ex_tee_dummy
     (mk_tri ex_P ex_W (mk_vert 2 0 0 0) 0) (Edge ex_P ex_W) = Inr 2"
    by (simp add: sort_tris_class_def v ex_tee_flap co ex_tee_orient Let_def n)
qed

lemma ex_tee_classify:
  "classify_tris dbg orient3d_sign ex_tee (Edge ex_P ex_W) (mk_tri ex_P ex_W (mk_vert 2 0 0 0) 0)
     (Some ex_tee_dummy) [0, 1, 2, EXTRA_TRI_INDEX] = Inr ([0], [1, EXTRA_TRI_INDEX], [], [2])"
  by (simp add: classify_tris_def classify_tri_def ex_tee_faces EXTRA_TRI_INDEX_def
      ex_tee_class group_append_def BLI_assert_def)

lemma ex_tee_neighbours:
  "ambient_neighbours dbg orient3d_sign ex_arena_vert ex_tee ex_tee_topo = Inl IndexOutOfRange"
proof -
  have x: "extreme_loop (concat (map vert ex_tee)) ex_P = ex_P"
    by (simp add: ex_tee_def mk_tri_def co_x_def ex_P_def ex_W_def mk_vert_def)
  have f: "vert (mk_tri ex_P ex_W c f_orig) = [ex_P, ex_W, c]" for c f_orig
    by (simp add: mk_tri_def)
  have ve: "vert_edges ex_tee_topo ex_P = Some [Edge ex_P ex_W]"
    by (simp add: ex_tee_topo_def ex_P_def ex_W_def mk_vert_def)
  have h: "hull_edge_loop ex_P [Edge ex_P ex_W] (None, - 1) = (Some (Edge ex_P ex_W), 1)"
    by (simp add: co_x_def co_y_def ex_P_def ex_W_def mk_vert_def Let_def)
  have et: "edge_tris ex_tee_topo (Edge ex_P ex_W) = Some [0, 1, 2]"
    by (simp add: edge_tris_def ex_tee_topo_def edge_key_def ex_P_def ex_W_def mk_vert_def)
  have p: "(case co_exact ex_P of (x, y, z) \<Rightarrow> (x + 1, y, z)) = (2, 0, 0)"
    by (simp add: ex_P_def mk_vert_def)
  have g: "get_at [ex_P, ex_W, c] 0 = Inr ex_P" for c
    by (simp add: get_at_def)
  have s: "sort_tris_around_edge dbg orient3d_sign ex_tee (Edge ex_P ex_W)
      [0, 1, 2, EXTRA_TRI_INDEX] 0 (Some ex_tee_dummy) = Inl IndexOutOfRange"
  proof -
    have ge: "get_at ex_tee EXTRA_TRI_INDEX = Inl IndexOutOfRange"
      by (simp add: get_at_def ex_tee_faces EXTRA_TRI_INDEX_def)
    have sb: "sort_by_signed_triangle_index ex_tee (Edge ex_P ex_W) [1, EXTRA_TRI_INDEX]
        = Inl IndexOutOfRange"
      by (simp add: sort_by_signed_triangle_index_def signed_index_def ex_tee_faces ex_tee_flap ge)
    show ?thesis
      by (subst sort_tris_around_edge.simps) (simp add: ex_tee_faces ex_tee_classify sb)
  qed
  show ?thesis
    unfolding ambient_neighbours_def ex_tee_faces(1) bindE_Inr f g x ve option.case h fst_conv
      Let_def p et append_Cons append_Nil list.sel Edge.sel ex_tee_dummy_def [symmetric]
      s
    by simp
qed

lemma ex_tee_sort3:
  "sort_tris_around_edge dbg orient3d_sign ex_tee (Edge ex_P ex_W) [0, 1, 2] 0 None = Inr [0, 2, 1]"
proof -
  have c: "classify_tris dbg orient3d_sign ex_tee (Edge ex_P ex_W)
      (mk_tri ex_P ex_W (mk_vert 2 0 0 0) 0) None [0, 1, 2] = Inr ([0], [1], [], [2])"
    by (simp add: ex_tee_faces classify_tris_def classify_tri_def EXTRA_TRI_INDEX_def
      ex_tee_class group_append_def)
  show ?thesis
    by (subst sort_tris_around_edge.simps) (simp add: ex_tee_faces c)
qed

lemma ex_tee_find_patches:
  "find_patches dbg ex_tee ex_tee_topo = Inr ex_tee_patches"
  apply (simp add: find_patches_def seed_step_def PatchesInfo_ctor_def add_patch_def
      grow_loop.simps grow_step_def grow_patch_def side_step_def incidence_step_def
      tri_is_assigned_def get_at_def NO_INDEX_def empty_Patch_def add_tri_def
      other_tri_if_manifold_def edge_tris_def ex_tee_topo_def ex_tee_def mk_tri_def
      mk_Edge_def edge_key_def ex_P_def ex_W_def mk_vert_def Let_def
      add_new_patch_patch_edge_def patch_patch_edge_def BLI_assert_def upt_rec
      ex_tee_patches_def ex_tee_pinfo_def)
  apply (auto simp: fun_eq_iff mk_Edge_def ex_P_def ex_W_def mk_vert_def)
  done

lemma ex_tee_find_cells:
  "find_cells dbg orient3d_sign ex_tee ex_tee_topo ex_tee_patches = Inr (ex_tee_pinfo, ex_tee_cinfo)"
proof -
  have e: "mk_Edge ex_P ex_W = Edge ex_P ex_W"
    by (simp add: mk_Edge_def ex_P_def ex_W_def mk_vert_def)
  have pt: "patch ex_tee_patches =
      [\<lparr>tri = [0], cell_above = NO_INDEX, cell_below = NO_INDEX\<rparr>,
       \<lparr>tri = [1], cell_above = NO_INDEX, cell_below = NO_INDEX\<rparr>,
       \<lparr>tri = [2], cell_above = NO_INDEX, cell_below = NO_INDEX\<rparr>]"
    and tp: "tri_patch ex_tee_patches = [0, 1, 2]"
    and pe: "pp_edge ex_tee_patches (0, 1) = Some (Edge ex_P ex_W)"
      "pp_edge ex_tee_patches (0, 2) = Some (Edge ex_P ex_W)"
      "pp_edge ex_tee_patches (1, 2) = Some (Edge ex_P ex_W)"
    by (simp_all add: ex_tee_patches_def ex_tee_pinfo_def e)
  have k: "edge_key (Edge ex_P ex_W) = (0, 1)"
    by (simp add: edge_key_def ex_P_def ex_W_def mk_vert_def)
  have et: "edge_tris ex_tee_topo (Edge ex_P ex_W) = Some [0, 1, 2]"
    by (simp add: edge_tris_def ex_tee_topo_def k)
  have pp: "patch_pairs (length (patch ex_tee_patches)) = [(0, 1), (0, 2), (1, 2)]"
    by (simp add: pt patch_pairs_def upt_rec)
  have u: "ex_tee_patches\<lparr>patch := patch ex_tee_pinfo\<rparr> = ex_tee_pinfo"
    by (simp add: ex_tee_patches_def)
  have fe: "find_cells_from_edge dbg orient3d_sign ex_tee ex_tee_topo ex_tee_patches []
      (Edge ex_P ex_W) = Inr (ex_tee_patches\<lparr>patch := patch ex_tee_pinfo\<rparr>, ex_tee_cinfo)"
    unfolding find_cells_from_edge_def et
    apply (simp add: BLI_assert_def get_at_def ex_tee_sort3 tp upt_rec)
    apply (simp add: ring_step_def get_at_def pt ex_tee_def ex_tee_flap read_cell_ref_def
        write_cell_ref_def add_cell_def cell_add_patch_at_def Cell_add_patch_def Let_def
        NO_INDEX_def ex_tee_pinfo_def ex_tee_cinfo_def empty_Cell_def)
    done
  have pe': "pp_edge ex_tee_pinfo = pp_edge ex_tee_patches"
    by (simp add: ex_tee_patches_def)
  show ?thesis
    unfolding find_cells_def pp
    by (simp add: pair_step_def patch_patch_edge_def pe pe' fe [unfolded u] k)
qed

lemma ex_tee_graph_ok:
  "patch_cell_graph_connected ex_tee_cinfo ex_tee_pinfo = Inr True"
  "patch_cell_graph_ok ex_tee_cinfo ex_tee_pinfo = Inr True"
  by (simp_all add: patch_cell_graph_ok_def ex_tee_cinfo_def ex_tee_pinfo_def cell_ok_def
      patch_ok_def empty_Cell_def NO_INDEX_def patch_cell_graph_connected_def reach_loop.simps
      visit_patch_def visit_cell_def push_unreached_def get_at_def Let_def)

lemma ex_tee_boolean:
  "boolean_trimesh dbg ex_ext ex_tee BOOLEAN_UNION 1 (\<lambda>t. 0) True = Inl IndexOutOfRange"
proof -
  have l: "ex_tee \<noteq> []" by (simp add: ex_tee_def)
  have a: "find_ambient_cell dbg orient3d_sign ex_arena_vert ex_tee ex_tee_topo ex_tee_pinfo
      = Inl IndexOutOfRange"
    by (simp add: find_ambient_cell_def ex_tee_neighbours)
  show ?thesis
    by (simp add: boolean_trimesh_def l ex_ext_def Let_def ex_tee_topo_ctor
        ex_tee_find_patches ex_tee_find_cells ex_tee_graph_ok a)
qed

theorem sort_tris_around_edge_extra_tri_witness:
  "TriMeshTopology_ctor True ex_tee = Inr ex_tee_topo
   \<and> find_flap_vert (mk_tri ex_P ex_W (mk_vert 2 0 0 0) 0) (Edge ex_P ex_W)
       = Inr (Some (mk_vert 2 0 0 0), False)
   \<and> find_flap_vert (mk_tri ex_P ex_W (mk_vert 3 0 2 0) 1) (Edge ex_P ex_W)
       = Inr (Some (mk_vert 3 0 2 0), False)
   \<and> find_flap_vert (mk_tri ex_P ex_W (mk_vert 4 0 0 1) 2) (Edge ex_P ex_W)
       = Inr (Some (mk_vert 4 0 0 1), False)
   \<and> find_flap_vert ex_tee_dummy (Edge ex_P ex_W)
       = Inr (Some (ex_arena_vert (2, 0, 0) NO_INDEX), False)
   \<and> get_at ex_tee 0 = Inr (mk_tri ex_P ex_W (mk_vert 2 0 0 0) 0)
   \<and> classify_tris True orient3d_sign ex_tee (Edge ex_P ex_W)
       (mk_tri ex_P ex_W (mk_vert 2 0 0 0) 0) (Some ex_tee_dummy) [0, 1, 2, EXTRA_TRI_INDEX]
       = Inr ([0], [1, EXTRA_TRI_INDEX], [], [2])
   \<and> sort_tris_around_edge True orient3d_sign ex_tee (Edge ex_P ex_W)
       [0, 1, 2, EXTRA_TRI_INDEX] 0 (Some ex_tee_dummy) = Inl IndexOutOfRange
   \<and> sort_tris_around_edge False orient3d_sign ex_tee (Edge ex_P ex_W)
       [0, 1, 2, EXTRA_TRI_INDEX] 0 (Some ex_tee_dummy) = Inl IndexOutOfRange
   \<and> find_patches True ex_tee ex_tee_topo = Inr ex_tee_patches
   \<and> find_cells True orient3d_sign ex_tee ex_tee_topo ex_tee_patches
       = Inr (ex_tee_pinfo, ex_tee_cinfo)
   \<and> patch_cell_graph_ok ex_tee_cinfo ex_tee_pinfo = Inr True
   \<and> find_ambient_cell True orient3d_sign ex_arena_vert ex_tee ex_tee_topo ex_tee_pinfo
       = Inl IndexOutOfRange
   \<and> find_ambient_cell False orient3d_sign ex_arena_vert ex_tee ex_tee_topo ex_tee_pinfo
       = Inl IndexOutOfRange
   \<and> boolean_trimesh True ex_ext ex_tee BOOLEAN_UNION 1 (\<lambda>t. 0) True = Inl IndexOutOfRange
   \<and> boolean_trimesh False ex_ext ex_tee BOOLEAN_UNION 1 (\<lambda>t. 0) True = Inl IndexOutOfRange"
proof -
  have ne: "[0, 1, 2, EXTRA_TRI_INDEX] \<noteq> []" by simp
  have sz: "int (length ex_tee) \<le> EXTRA_TRI_INDEX"
    by (simp add: ex_tee_faces EXTRA_TRI_INDEX_def)
  have x: "(1 < length [0::int] \<and> EXTRA_TRI_INDEX \<in> set [0])
      \<or> (1 < length [1, EXTRA_TRI_INDEX] \<and> EXTRA_TRI_INDEX \<in> set [1, EXTRA_TRI_INDEX])"
    by simp
  have s: "sort_tris_around_edge dbg orient3d_sign ex_tee (Edge ex_P ex_W)
      [0, 1, 2, EXTRA_TRI_INDEX] 0 (Some ex_tee_dummy) = Inl IndexOutOfRange" for dbg
    by (rule sort_tris_around_edge_extra_tri [OF ne sz ex_tee_faces(1) ex_tee_classify x,
          THEN conjunct1])
  have a: "find_ambient_cell dbg orient3d_sign ex_arena_vert ex_tee ex_tee_topo ex_tee_pinfo
      = Inl IndexOutOfRange" for dbg
    by (simp add: find_ambient_cell_def ex_tee_neighbours)
  from ex_tee_topo_ctor [of True] ex_tee_flap(1) [of "mk_vert 2 0 0 0" 0]
    ex_tee_flap(1) [of "mk_vert 3 0 2 0" 1] ex_tee_flap(1) [of "mk_vert 4 0 0 1" 2]
    ex_tee_flap(2) ex_tee_faces(1) ex_tee_classify [of True] s [of True] s [of False]
    ex_tee_find_patches [of True] ex_tee_find_cells [of True] ex_tee_graph_ok(2)
    a [of True] a [of False] ex_tee_boolean [of True] ex_tee_boolean [of False]
  show ?thesis by (intro conjI)
qed

text \<open>
  The claim also differs from the code, without any failure, when the pivot is not the
  first element of the span: the code starts \<open>g1\<close> with \<open>tris[0]\<close> whatever its class and
  classifies the pivot like any other element. On the span \<open>[2, 0, 1, 3]\<close> with pivot 0,
  triangle 2 is coplanar with the pivot on the other side (class 2), triangle 1 is above
  (class 4) and triangle 3 is below (class 3): the claim's \<open>G3 @ G1 @ G4 @ G2\<close> is
  \<open>[3] @ [0] @ [1] @ [2]\<close>, and the code returns \<open>[3, 0, 2, 1]\<close>.
\<close>

lemma ex_edge_eq: "ex_edge = Edge ex_A ex_B"
  by (simp add: ex_edge_def mk_Edge_def ex_A_def ex_B_def mk_vert_def)

lemma ex_fan_faces:
  "get_at ex_fan 0 = Inr (mk_tri ex_A ex_B (mk_vert 2 1 0 0) 0)"
  "get_at ex_fan 1 = Inr (mk_tri ex_A ex_B (mk_vert 3 0 1 0) 1)"
  "get_at ex_fan 2 = Inr (mk_tri ex_A ex_B (mk_vert 4 (- 1) 0 0) 2)"
  "get_at ex_fan 3 = Inr (mk_tri ex_B ex_A (mk_vert 5 0 (- 1) 0) 3)"
  "length ex_fan = 4"
  by (simp_all add: ex_fan_def get_at_def)

lemma ex_fan_flap:
  "find_flap_vert (mk_tri ex_A ex_B c f_orig) ex_edge = Inr (Some c, False)"
  "find_flap_vert (mk_tri ex_B ex_A (mk_vert 5 0 (- 1) 0) f_orig) ex_edge
     = Inr (Some (mk_vert 5 0 (- 1) 0), True)"
  by (simp_all add: find_flap_vert_def mk_tri_def get_at_def ex_edge_eq ex_A_def ex_B_def
      mk_vert_def)

lemma ex_fan_orient:
  "orient3d_sign (co_exact ex_A) (co_exact ex_B) (1, 0, 0) (1, 0, 0) = 0"
  "orient3d_sign (co_exact ex_A) (co_exact ex_B) (1, 0, 0) (0, 1, 0) = - 1"
  "orient3d_sign (co_exact ex_A) (co_exact ex_B) (1, 0, 0) (- 1, 0, 0) = 0"
  "orient3d_sign (co_exact ex_A) (co_exact ex_B) (1, 0, 0) (0, - 1, 0) = 1"
  by (simp_all add: orient3d_sign_def ex_A_def ex_B_def mk_vert_def Let_def)

lemma ex_fan_class:
  "sort_tris_class dbg orient3d_sign (mk_tri ex_A ex_B (mk_vert 2 1 0 0) 0)
     (mk_tri ex_A ex_B (mk_vert 2 1 0 0) 0) ex_edge = Inr 1"
  "sort_tris_class dbg orient3d_sign (mk_tri ex_A ex_B (mk_vert 3 0 1 0) 1)
     (mk_tri ex_A ex_B (mk_vert 2 1 0 0) 0) ex_edge = Inr 4"
  "sort_tris_class dbg orient3d_sign (mk_tri ex_A ex_B (mk_vert 4 (- 1) 0 0) 2)
     (mk_tri ex_A ex_B (mk_vert 2 1 0 0) 0) ex_edge = Inr 2"
  "sort_tris_class dbg orient3d_sign (mk_tri ex_B ex_A (mk_vert 5 0 (- 1) 0) 3)
     (mk_tri ex_A ex_B (mk_vert 2 1 0 0) 0) ex_edge = Inr 3"
proof -
  have v: "get_at (vert (mk_tri a b c f_orig)) 0 = Inr a"
    "get_at (vert (mk_tri a b c f_orig)) 1 = Inr b"
    "get_at (vert (mk_tri a b c f_orig)) 2 = Inr c" for a b c f_orig
    by (simp_all add: mk_tri_def get_at_def)
  have co: "co_exact (mk_vert i x y z) = (x, y, z)" for i x y z
    by (simp add: mk_vert_def)
  have n: "mk_vert 4 (- 1) 0 0 \<noteq> mk_vert 2 1 0 0"
    by (simp add: mk_vert_def)
  show "sort_tris_class dbg orient3d_sign (mk_tri ex_A ex_B (mk_vert 2 1 0 0) 0)
     (mk_tri ex_A ex_B (mk_vert 2 1 0 0) 0) ex_edge = Inr 1"
    by (simp add: sort_tris_class_def v ex_fan_flap co ex_fan_orient Let_def)
  show "sort_tris_class dbg orient3d_sign (mk_tri ex_A ex_B (mk_vert 3 0 1 0) 1)
     (mk_tri ex_A ex_B (mk_vert 2 1 0 0) 0) ex_edge = Inr 4"
    by (simp add: sort_tris_class_def v ex_fan_flap co ex_fan_orient Let_def)
  show "sort_tris_class dbg orient3d_sign (mk_tri ex_A ex_B (mk_vert 4 (- 1) 0 0) 2)
     (mk_tri ex_A ex_B (mk_vert 2 1 0 0) 0) ex_edge = Inr 2"
    by (simp add: sort_tris_class_def v ex_fan_flap co ex_fan_orient Let_def n)
  show "sort_tris_class dbg orient3d_sign (mk_tri ex_B ex_A (mk_vert 5 0 (- 1) 0) 3)
     (mk_tri ex_A ex_B (mk_vert 2 1 0 0) 0) ex_edge = Inr 3"
    by (simp add: sort_tris_class_def v ex_fan_flap co ex_fan_orient Let_def)
qed

lemma ex_fan_classify_pivot:
  "classify_tris dbg orient3d_sign ex_fan ex_edge (mk_tri ex_A ex_B (mk_vert 2 1 0 0) 0)
     None [2, 0, 1, 3] = Inr ([2, 0], [], [3], [1])"
  by (simp add: classify_tris_def classify_tri_def ex_fan_faces EXTRA_TRI_INDEX_def
      ex_fan_class group_append_def BLI_assert_def)

lemma ex_fan_signed_sort:
  "sort_by_signed_triangle_index ex_fan ex_edge [2, 0] = Inr [0, 2]"
  by (simp add: sort_by_signed_triangle_index_def signed_index_def ex_fan_faces ex_fan_flap)

theorem sort_tris_around_edge_pivot_counterexample:
  "sort_tris_around_edge True orient3d_sign ex_fan ex_edge [2, 0, 1, 3] 0 None = Inr [3, 0, 2, 1]
   \<and> sort_tris_class True orient3d_sign (mk_tri ex_A ex_B (mk_vert 4 (- 1) 0 0) 2)
       (mk_tri ex_A ex_B (mk_vert 2 1 0 0) 0) ex_edge = Inr 2
   \<and> sort_tris_class True orient3d_sign (mk_tri ex_A ex_B (mk_vert 3 0 1 0) 1)
       (mk_tri ex_A ex_B (mk_vert 2 1 0 0) 0) ex_edge = Inr 4
   \<and> sort_tris_class True orient3d_sign (mk_tri ex_B ex_A (mk_vert 5 0 (- 1) 0) 3)
       (mk_tri ex_A ex_B (mk_vert 2 1 0 0) 0) ex_edge = Inr 3
   \<and> [3, 0, 2, 1] \<noteq> [3] @ [0] @ [1] @ [2::int]"
proof -
  have "sort_tris_around_edge True orient3d_sign ex_fan ex_edge [2, 0, 1, 3] 0 None
      = Inr [3, 0, 2, 1]"
    by (subst sort_tris_around_edge.simps)
      (simp add: ex_fan_faces ex_fan_classify_pivot ex_fan_signed_sort)
  with ex_fan_class [of True] show ?thesis by simp
qed

section \<open>The ambient cell\<close>

lemma patch_cell_graph_ok_patches:
  "patch_cell_graph_ok cinfo pinfo = Inr True \<Longrightarrow> list_all (patch_ok cinfo) (patch pinfo)"
  by (auto simp: patch_cell_graph_ok_def split: if_splits)

text \<open>
  Claim C2. The spec has \<^verbatim>\<open>find_ambient_cell\<close> return \<open>NO_INDEX\<close> when the patches of the two
  neighbours of the dummy triangle have differing \<open>cell_above\<close>. The code has no such
  return: it asserts that the two agree and returns the \<open>cell_above\<close> of the previous
  neighbour's patch. On a mismatch a debug build fails the assertion and a release
  build returns one of the two differing cells; and once \<^verbatim>\<open>patch_cell_graph_ok\<close> has
  accepted the patches and cells, as it has when \<^verbatim>\<open>boolean_trimesh\<close> calls
  \<^verbatim>\<open>find_ambient_cell\<close>, the result is never \<open>NO_INDEX\<close>, so the caller's test for
  \<open>NO_INDEX\<close> cannot succeed.
\<close>

theorem find_ambient_cell_result:
  assumes "ambient_neighbours dbg orient3d add_or_find_vert tm tmtopo = Inr (prev_tri, next_tri)"
    and "get_at (tri_patch pinfo) prev_tri = Inr prev_p"
    and "get_at (patch pinfo) prev_p = Inr prev_patch"
    and "get_at (tri_patch pinfo) next_tri = Inr next_p"
    and "get_at (patch pinfo) next_p = Inr next_patch"
  shows "find_ambient_cell dbg orient3d add_or_find_vert tm tmtopo pinfo =
           (if dbg \<and> cell_above prev_patch \<noteq> cell_above next_patch then Inl AssertionFailure
            else Inr (cell_above prev_patch))
       \<and> (patch_cell_graph_ok cinfo pinfo = Inr True \<longrightarrow>
            find_ambient_cell dbg orient3d add_or_find_vert tm tmtopo pinfo \<noteq> Inr NO_INDEX)"
proof
  show r: "find_ambient_cell dbg orient3d add_or_find_vert tm tmtopo pinfo =
           (if dbg \<and> cell_above prev_patch \<noteq> cell_above next_patch then Inl AssertionFailure
            else Inr (cell_above prev_patch))"
    using assms by (simp add: find_ambient_cell_def BLI_assert_def)
  show "patch_cell_graph_ok cinfo pinfo = Inr True \<longrightarrow>
      find_ambient_cell dbg orient3d add_or_find_vert tm tmtopo pinfo \<noteq> Inr NO_INDEX"
  proof
    assume "patch_cell_graph_ok cinfo pinfo = Inr True"
    then have a: "list_all (patch_ok cinfo) (patch pinfo)"
      by (rule patch_cell_graph_ok_patches)
    from assms(3) have "prev_patch \<in> set (patch pinfo)"
      by (auto simp: get_at_eq_Inr)
    with a have "patch_ok cinfo prev_patch"
      by (simp add: list_all_iff)
    then have "cell_above prev_patch \<noteq> NO_INDEX"
      by (simp add: patch_ok_def)
    with r show "find_ambient_cell dbg orient3d add_or_find_vert tm tmtopo pinfo \<noteq> Inr NO_INDEX"
      by simp
  qed
qed

lemma ex_fins_topo_ctor: "TriMeshTopology_ctor dbg ex_fins = Inr ex_fins_topo"
  by (simp add: TriMeshTopology_ctor_def ex_fins_def topo_add_tri_def mk_tri_def is_tri_def
      get_at_def topo_add_side_def empty_topo_def Let_def mk_Edge_def ex_P_def ex_Q_def
      mk_vert_def edge_key_def append_non_duplicates_def append_non_duplicates_edge_def
      edge_eq_def upt_rec ex_fins_topo_def)

lemma ex_fins_faces:
  "get_at ex_fins 0 = Inr (mk_tri ex_P ex_Q (mk_vert 2 0 1 0) 0)"
  "get_at ex_fins 1 = Inr (mk_tri ex_P ex_Q (mk_vert 3 0 (- 1) 0) 1)"
  "get_at ex_fins 2 = Inr (mk_tri ex_P ex_Q (mk_vert 4 (- 1) 0 0) 2)"
  "length ex_fins = 3"
  by (simp_all add: ex_fins_def get_at_def)

lemma ex_fins_flap:
  "find_flap_vert (mk_tri ex_P ex_Q c f_orig) (Edge ex_P ex_Q) = Inr (Some c, False)"
  by (simp add: find_flap_vert_def mk_tri_def get_at_def)

lemma ex_dummy_flap:
  "find_flap_vert ex_dummy_tri (Edge ex_P ex_Q) = Inr (Some (ex_arena_vert (2, 0, 0) NO_INDEX), False)"
  by (simp add: find_flap_vert_def ex_dummy_tri_def add_face_def get_at_def)

lemma ex_fins_orient:
  "orient3d_sign (co_exact ex_P) (co_exact ex_Q) (0, 1, 0) (0, - 1, 0) = - 1"
  "orient3d_sign (co_exact ex_P) (co_exact ex_Q) (0, 1, 0) (- 1, 0, 0) = - 1"
  "orient3d_sign (co_exact ex_P) (co_exact ex_Q) (0, 1, 0) (2, 0, 0) = 1"
  "orient3d_sign (co_exact ex_P) (co_exact ex_Q) (0, - 1, 0) (- 1, 0, 0) = 1"
  by (simp_all add: orient3d_sign_def ex_P_def ex_Q_def mk_vert_def Let_def)

lemma ex_fins_class:
  "sort_tris_class dbg orient3d_sign (mk_tri ex_P ex_Q (mk_vert 3 0 (- 1) 0) 1)
     (mk_tri ex_P ex_Q (mk_vert 2 0 1 0) 0) (Edge ex_P ex_Q) = Inr 4"
  "sort_tris_class dbg orient3d_sign (mk_tri ex_P ex_Q (mk_vert 4 (- 1) 0 0) 2)
     (mk_tri ex_P ex_Q (mk_vert 2 0 1 0) 0) (Edge ex_P ex_Q) = Inr 4"
  "sort_tris_class dbg orient3d_sign ex_dummy_tri
     (mk_tri ex_P ex_Q (mk_vert 2 0 1 0) 0) (Edge ex_P ex_Q) = Inr 3"
  "sort_tris_class dbg orient3d_sign (mk_tri ex_P ex_Q (mk_vert 4 (- 1) 0 0) 2)
     (mk_tri ex_P ex_Q (mk_vert 3 0 (- 1) 0) 1) (Edge ex_P ex_Q) = Inr 3"
proof -
  have v: "get_at (vert (mk_tri ex_P ex_Q c f_orig)) 0 = Inr ex_P"
    "get_at (vert (mk_tri ex_P ex_Q c f_orig)) 1 = Inr ex_Q"
    "get_at (vert (mk_tri ex_P ex_Q c f_orig)) 2 = Inr c" for c f_orig
    by (simp_all add: mk_tri_def get_at_def)
  have c: "co_exact (mk_vert i x y z) = (x, y, z)" for i x y z
    by (simp add: mk_vert_def)
  have d: "co_exact (ex_arena_vert co o') = co" for co o'
    by (simp add: ex_arena_vert_def)
  show "sort_tris_class dbg orient3d_sign (mk_tri ex_P ex_Q (mk_vert 3 0 (- 1) 0) 1)
     (mk_tri ex_P ex_Q (mk_vert 2 0 1 0) 0) (Edge ex_P ex_Q) = Inr 4"
    by (simp add: sort_tris_class_def v ex_fins_flap c ex_fins_orient Let_def)
  show "sort_tris_class dbg orient3d_sign (mk_tri ex_P ex_Q (mk_vert 4 (- 1) 0 0) 2)
     (mk_tri ex_P ex_Q (mk_vert 2 0 1 0) 0) (Edge ex_P ex_Q) = Inr 4"
    by (simp add: sort_tris_class_def v ex_fins_flap c ex_fins_orient Let_def)
  show "sort_tris_class dbg orient3d_sign ex_dummy_tri
     (mk_tri ex_P ex_Q (mk_vert 2 0 1 0) 0) (Edge ex_P ex_Q) = Inr 3"
    by (simp add: sort_tris_class_def v ex_fins_flap ex_dummy_flap c d ex_fins_orient Let_def)
  show "sort_tris_class dbg orient3d_sign (mk_tri ex_P ex_Q (mk_vert 4 (- 1) 0 0) 2)
     (mk_tri ex_P ex_Q (mk_vert 3 0 (- 1) 0) 1) (Edge ex_P ex_Q) = Inr 3"
    by (simp add: sort_tris_class_def v ex_fins_flap c ex_fins_orient Let_def)
qed

lemma ex_fins_sort_inner:
  "sort_tris_around_edge dbg orient3d_sign ex_fins (Edge ex_P ex_Q) [1, 2] 1 (Some ex_dummy_tri)
     = Inr [1, 2]"
  by (subst sort_tris_around_edge.simps)
    (simp add: ex_fins_faces classify_tris_def classify_tri_def EXTRA_TRI_INDEX_def
      ex_fins_class group_append_def)

lemma ex_fins_sort:
  "sort_tris_around_edge dbg orient3d_sign ex_fins (Edge ex_P ex_Q) [0, 1, 2, EXTRA_TRI_INDEX] 0
     (Some ex_dummy_tri) = Inr [0, 1, 2, EXTRA_TRI_INDEX]"
proof -
  have c: "classify_tris dbg orient3d_sign ex_fins (Edge ex_P ex_Q)
      (mk_tri ex_P ex_Q (mk_vert 2 0 1 0) 0) (Some ex_dummy_tri) [0, 1, 2, EXTRA_TRI_INDEX]
      = Inr ([0], [], [EXTRA_TRI_INDEX], [1, 2])"
    by (simp add: ex_fins_faces classify_tris_def classify_tri_def EXTRA_TRI_INDEX_def
      ex_fins_class group_append_def)
  show ?thesis
    by (subst sort_tris_around_edge.simps)
      (simp add: ex_fins_faces c ex_fins_sort_inner std_copy_def)
qed

lemma ex_fins_neighbours:
  "ambient_neighbours dbg orient3d_sign ex_arena_vert ex_fins ex_fins_topo = Inr (2, 0)"
proof -
  have x: "extreme_loop (concat (map vert ex_fins)) ex_P = ex_P"
    by (simp add: ex_fins_def mk_tri_def co_x_def ex_P_def ex_Q_def mk_vert_def)
  have f: "vert (mk_tri ex_P ex_Q c f_orig) = [ex_P, ex_Q, c]" for c f_orig
    by (simp add: mk_tri_def)
  have ve: "vert_edges ex_fins_topo ex_P = Some [Edge ex_P ex_Q]"
    by (simp add: ex_fins_topo_def ex_P_def ex_Q_def mk_vert_def)
  have h: "hull_edge_loop ex_P [Edge ex_P ex_Q] (None, - 1) = (Some (Edge ex_P ex_Q), - 1)"
    by (simp add: co_x_def ex_P_def ex_Q_def mk_vert_def)
  have et: "edge_tris ex_fins_topo (Edge ex_P ex_Q) = Some [0, 1, 2]"
    by (simp add: edge_tris_def ex_fins_topo_def edge_key_def ex_P_def ex_Q_def mk_vert_def)
  have p: "(case co_exact ex_P of (x, y, z) \<Rightarrow> (x + 1, y, z)) = (2, 0, 0)"
    by (simp add: ex_P_def mk_vert_def)
  have i: "std_find [0, 1, 2, EXTRA_TRI_INDEX] EXTRA_TRI_INDEX = 3"
    by (simp add: std_find_def EXTRA_TRI_INDEX_def)
  have g: "get_at [ex_P, ex_Q, c] 0 = Inr ex_P" for c
    by (simp add: get_at_def)
  have s: "get_at [0, 1, 2, EXTRA_TRI_INDEX] 2 = Inr 2" "get_at [0, 1, 2, EXTRA_TRI_INDEX] 0 = Inr 0"
    by (simp_all add: get_at_def)
  show ?thesis
    unfolding ambient_neighbours_def ex_fins_faces(1) bindE_Inr f g x ve option.case h fst_conv
      Let_def p et append_Cons append_Nil list.sel Edge.sel ex_dummy_tri_def [symmetric]
      ex_fins_sort i
    by (simp add: s)
qed

lemma ex_fins_graph_ok: "patch_cell_graph_ok ex_fins_cinfo ex_fins_pinfo = Inr True"
  by (simp add: patch_cell_graph_ok_def ex_fins_cinfo_def ex_fins_pinfo_def cell_ok_def
      patch_ok_def empty_Cell_def NO_INDEX_def patch_cell_graph_connected_def reach_loop.simps
      visit_patch_def visit_cell_def push_unreached_def get_at_def Let_def)

lemma ex_fins_lookups:
  "get_at (tri_patch ex_fins_pinfo) 2 = Inr 2"
  "get_at (patch ex_fins_pinfo) 2 = Inr \<lparr>tri = [2], cell_above = 2, cell_below = 1\<rparr>"
  "get_at (tri_patch ex_fins_pinfo) 0 = Inr 0"
  "get_at (patch ex_fins_pinfo) 0 = Inr \<lparr>tri = [0], cell_above = 0, cell_below = 2\<rparr>"
  by (simp_all add: ex_fins_pinfo_def get_at_def)

theorem find_ambient_cell_result_witness:
  "ambient_neighbours True orient3d_sign ex_arena_vert ex_fins ex_fins_topo = Inr (2, 0)
   \<and> get_at (tri_patch ex_fins_pinfo) 2 = Inr 2
   \<and> get_at (patch ex_fins_pinfo) 2 = Inr \<lparr>tri = [2], cell_above = 2, cell_below = 1\<rparr>
   \<and> get_at (tri_patch ex_fins_pinfo) 0 = Inr 0
   \<and> get_at (patch ex_fins_pinfo) 0 = Inr \<lparr>tri = [0], cell_above = 0, cell_below = 2\<rparr>
   \<and> patch_cell_graph_ok ex_fins_cinfo ex_fins_pinfo = Inr True
   \<and> find_ambient_cell True orient3d_sign ex_arena_vert ex_fins ex_fins_topo ex_fins_pinfo
       = Inl AssertionFailure
   \<and> find_ambient_cell False orient3d_sign ex_arena_vert ex_fins ex_fins_topo ex_fins_pinfo
       = Inr 2
   \<and> find_ambient_cell False orient3d_sign ex_arena_vert ex_fins ex_fins_topo ex_fins_pinfo
       \<noteq> Inr NO_INDEX"
proof -
  note p = ex_fins_lookups
  note ok = ex_fins_graph_ok
  note t = find_ambient_cell_result [OF ex_fins_neighbours p, of _ ex_fins_cinfo]
  from t [of False] have "patch_cell_graph_ok ex_fins_cinfo ex_fins_pinfo = Inr True \<longrightarrow>
      find_ambient_cell False orient3d_sign ex_arena_vert ex_fins ex_fins_topo ex_fins_pinfo
        \<noteq> Inr NO_INDEX"
    by (rule conjunct2)
  with ok have n: "find_ambient_cell False orient3d_sign ex_arena_vert ex_fins ex_fins_topo
      ex_fins_pinfo \<noteq> Inr NO_INDEX"
    by simp
  from t [of True] have a: "find_ambient_cell True orient3d_sign ex_arena_vert ex_fins
      ex_fins_topo ex_fins_pinfo = Inl AssertionFailure"
    by simp
  from t [of False] have b: "find_ambient_cell False orient3d_sign ex_arena_vert ex_fins
      ex_fins_topo ex_fins_pinfo = Inr 2"
    by simp
  from a b n ok ex_fins_neighbours [of True] p
  show ?thesis by (intro conjI)
qed

lemma ex_fins_sort3:
  "sort_tris_around_edge dbg orient3d_sign ex_fins (Edge ex_P ex_Q) [0, 1, 2] 0 None = Inr [0, 1, 2]"
proof -
  have c: "classify_tris dbg orient3d_sign ex_fins (Edge ex_P ex_Q)
      (mk_tri ex_P ex_Q (mk_vert 2 0 1 0) 0) None [0, 1, 2] = Inr ([0], [], [], [1, 2])"
    by (simp add: ex_fins_faces classify_tris_def classify_tri_def EXTRA_TRI_INDEX_def
      ex_fins_class group_append_def)
  have i: "sort_tris_around_edge dbg orient3d_sign ex_fins (Edge ex_P ex_Q) [1, 2] 1 None
     = Inr [1, 2]"
    by (subst sort_tris_around_edge.simps)
      (simp add: ex_fins_faces classify_tris_def classify_tri_def EXTRA_TRI_INDEX_def
        ex_fins_class group_append_def)
  show ?thesis
    by (subst sort_tris_around_edge.simps)
      (simp add: ex_fins_faces c i std_copy_def)
qed

lemma ex_fins_find_patches_eq:
  "find_patches dbg ex_fins ex_fins_topo = Inr ex_fins_patches"
  apply (simp add: find_patches_def seed_step_def PatchesInfo_ctor_def add_patch_def
      grow_loop.simps grow_step_def grow_patch_def side_step_def incidence_step_def
      tri_is_assigned_def get_at_def NO_INDEX_def empty_Patch_def add_tri_def
      other_tri_if_manifold_def edge_tris_def ex_fins_topo_def ex_fins_def mk_tri_def
      mk_Edge_def edge_key_def ex_P_def ex_Q_def mk_vert_def Let_def
      add_new_patch_patch_edge_def patch_patch_edge_def BLI_assert_def upt_rec
      ex_fins_patches_def ex_fins_pinfo_def)
  apply (auto simp: fun_eq_iff mk_Edge_def ex_P_def ex_Q_def mk_vert_def)
  done

lemma ex_fins_find_cells_eq:
  "find_cells dbg orient3d_sign ex_fins ex_fins_topo ex_fins_patches =
     Inr (ex_fins_pinfo, ex_fins_cinfo)"
proof -
  have e: "mk_Edge ex_P ex_Q = Edge ex_P ex_Q"
    by (simp add: mk_Edge_def ex_P_def ex_Q_def mk_vert_def)
  have pt: "patch ex_fins_patches =
      [\<lparr>tri = [0], cell_above = NO_INDEX, cell_below = NO_INDEX\<rparr>,
       \<lparr>tri = [1], cell_above = NO_INDEX, cell_below = NO_INDEX\<rparr>,
       \<lparr>tri = [2], cell_above = NO_INDEX, cell_below = NO_INDEX\<rparr>]"
    and tp: "tri_patch ex_fins_patches = [0, 1, 2]"
    and pe: "pp_edge ex_fins_patches (0, 1) = Some (Edge ex_P ex_Q)"
      "pp_edge ex_fins_patches (0, 2) = Some (Edge ex_P ex_Q)"
      "pp_edge ex_fins_patches (1, 2) = Some (Edge ex_P ex_Q)"
    by (simp_all add: ex_fins_patches_def ex_fins_pinfo_def e)
  have k: "edge_key (Edge ex_P ex_Q) = (0, 1)"
    by (simp add: edge_key_def ex_P_def ex_Q_def mk_vert_def)
  have et: "edge_tris ex_fins_topo (Edge ex_P ex_Q) = Some [0, 1, 2]"
    by (simp add: edge_tris_def ex_fins_topo_def k)
  have pp: "patch_pairs (length (patch ex_fins_patches)) = [(0, 1), (0, 2), (1, 2)]"
    by (simp add: pt patch_pairs_def upt_rec)
  have u: "ex_fins_patches\<lparr>patch := patch ex_fins_pinfo\<rparr> = ex_fins_pinfo"
    by (simp add: ex_fins_patches_def)
  have fe: "find_cells_from_edge dbg orient3d_sign ex_fins ex_fins_topo ex_fins_patches []
      (Edge ex_P ex_Q) = Inr (ex_fins_patches\<lparr>patch := patch ex_fins_pinfo\<rparr>, ex_fins_cinfo)"
    unfolding find_cells_from_edge_def et
    apply (simp add: BLI_assert_def get_at_def ex_fins_sort3 tp upt_rec)
    apply (simp add: ring_step_def get_at_def pt ex_fins_def ex_fins_flap read_cell_ref_def
        write_cell_ref_def add_cell_def cell_add_patch_at_def Cell_add_patch_def Let_def
        NO_INDEX_def ex_fins_pinfo_def ex_fins_cinfo_def empty_Cell_def)
    done
  have pe': "pp_edge ex_fins_pinfo = pp_edge ex_fins_patches"
    by (simp add: ex_fins_patches_def)
  show ?thesis
    unfolding find_cells_def pp
    by (simp add: pair_step_def patch_patch_edge_def pe pe' fe [unfolded u] k)
qed

lemma ex_fins_connected:
  "patch_cell_graph_connected ex_fins_cinfo ex_fins_pinfo = Inr True"
  by (simp add: ex_fins_cinfo_def ex_fins_pinfo_def
      empty_Cell_def NO_INDEX_def patch_cell_graph_connected_def reach_loop.simps
      visit_patch_def visit_cell_def push_unreached_def get_at_def Let_def)

lemma ex_fins_ambient:
  "find_ambient_cell False orient3d_sign ex_arena_vert ex_fins ex_fins_topo ex_fins_pinfo = Inr 2"
  "find_ambient_cell True orient3d_sign ex_arena_vert ex_fins ex_fins_topo ex_fins_pinfo
     = Inl AssertionFailure"
  by (simp_all add: find_ambient_cell_def ex_fins_neighbours ex_fins_lookups BLI_assert_def)

lemma ex_fins_boolean:
  "boolean_trimesh True ex_ext ex_fins BOOLEAN_UNION 1 (\<lambda>t. 0) True = Inl AssertionFailure"
  "boolean_trimesh False ex_ext ex_fins BOOLEAN_UNION 1 (\<lambda>t. 0) True =
     Inr [\<lparr>vert = [ex_P, mk_vert 2 0 1 0, ex_Q], orig = 0, edge_orig = [2, 1, 0]\<rparr>,
          mk_tri ex_P ex_Q (mk_vert 4 (- 1) 0 0) 2]"
proof -
  have l: "ex_fins \<noteq> []" by (simp add: ex_fins_def)
  show "boolean_trimesh True ex_ext ex_fins BOOLEAN_UNION 1 (\<lambda>t. 0) True = Inl AssertionFailure"
    by (simp add: boolean_trimesh_def l ex_ext_def Let_def ex_fins_topo_ctor
        ex_fins_find_patches_eq ex_fins_find_cells_eq ex_fins_connected ex_fins_graph_ok
        ex_fins_ambient)
  show "boolean_trimesh False ex_ext ex_fins BOOLEAN_UNION 1 (\<lambda>t. 0) True =
     Inr [\<lparr>vert = [ex_P, mk_vert 2 0 1 0, ex_Q], orig = 0, edge_orig = [2, 1, 0]\<rparr>,
          mk_tri ex_P ex_Q (mk_vert 4 (- 1) 0 0) 2]"
    apply (simp add: boolean_trimesh_def l ex_ext_def Let_def ex_fins_topo_ctor
        ex_fins_find_patches_eq ex_fins_find_cells_eq ex_fins_connected ex_fins_graph_ok
        ex_fins_ambient NO_INDEX_def)
    apply (simp add: propagate_windings_and_flag_def propagate_loop.simps init_windings_def
        init_winding_def ex_fins_cinfo_def empty_Cell_def get_at_def seed_ambient_winding_def
        set_winding_and_flag_def cross_patch_def apply_bool_op_def BLI_assert_def
        ex_fins_pinfo_def si_shape_fn_def ex_fins_def Let_def NO_INDEX_def
        extract_from_flag_diffs_def extract_tri_def flip_tri_def mk_tri_def upt_rec
        std_copy_def add_face_def)
    done
qed

text \<open>
  The failing input: three triangles around the edge from \<open>(1,0,0)\<close> to \<open>(1,0,1)\<close>, with
  their third vertices at \<open>(0,1,0)\<close>, \<open>(0,-1,0)\<close> and \<open>(-1,0,0)\<close>. \<^verbatim>\<open>find_patches\<close> makes each
  triangle a patch, \<^verbatim>\<open>find_cells\<close> makes the three cells between them, and
  \<^verbatim>\<open>patch_cell_graph_ok\<close> accepts the result. The dummy triangle falls between
  triangle 2, whose patch has cell 2 above, and triangle 0, whose patch has cell 0
  above. In a release build \<^verbatim>\<open>find_ambient_cell\<close> returns 2, not \<open>NO_INDEX\<close>, and
  \<^verbatim>\<open>boolean_trimesh\<close> goes on to return two of the three triangles as their union; in a
  debug build the assertion fails.
\<close>

theorem find_ambient_cell_counterexample:
  "TriMeshTopology_ctor False ex_fins = Inr ex_fins_topo
   \<and> find_patches False ex_fins ex_fins_topo = Inr ex_fins_patches
   \<and> find_cells False orient3d_sign ex_fins ex_fins_topo ex_fins_patches
       = Inr (ex_fins_pinfo, ex_fins_cinfo)
   \<and> patch_cell_graph_ok ex_fins_cinfo ex_fins_pinfo = Inr True
   \<and> ambient_neighbours False orient3d_sign ex_arena_vert ex_fins ex_fins_topo = Inr (2, 0)
   \<and> tri_patch ex_fins_pinfo = [0, 1, 2]
   \<and> cell_above (patch ex_fins_pinfo ! 2) = 2
   \<and> cell_above (patch ex_fins_pinfo ! 0) = 0
   \<and> find_ambient_cell False orient3d_sign ex_arena_vert ex_fins ex_fins_topo ex_fins_pinfo
       = Inr 2
   \<and> find_ambient_cell True orient3d_sign ex_arena_vert ex_fins ex_fins_topo ex_fins_pinfo
       = Inl AssertionFailure
   \<and> boolean_trimesh False ex_ext ex_fins BOOLEAN_UNION 1 (\<lambda>t. 0) True =
       Inr [\<lparr>vert = [ex_P, mk_vert 2 0 1 0, ex_Q], orig = 0, edge_orig = [2, 1, 0]\<rparr>,
            mk_tri ex_P ex_Q (mk_vert 4 (- 1) 0 0) 2]
   \<and> boolean_trimesh True ex_ext ex_fins BOOLEAN_UNION 1 (\<lambda>t. 0) True = Inl AssertionFailure"
proof -
  have c: "tri_patch ex_fins_pinfo = [0, 1, 2]" "cell_above (patch ex_fins_pinfo ! 2) = 2"
    "cell_above (patch ex_fins_pinfo ! 0) = 0"
    by (simp_all add: ex_fins_pinfo_def)
  from ex_fins_topo_ctor [of False] ex_fins_find_patches_eq [of False]
    ex_fins_find_cells_eq [of False] ex_fins_graph_ok ex_fins_neighbours [of False] c
    ex_fins_ambient ex_fins_boolean(2) ex_fins_boolean(1)
  show ?thesis by (intro conjI)
qed

section \<open>Early returns of the boolean operation\<close>

text \<open>
  Claim C7. \<^verbatim>\<open>boolean_trimesh\<close> returns \<open>tm_in\<close> unchanged when \<open>tm_in\<close> has zero faces, for
  every operator, number of shapes and shape function; and, the input not being
  empty, it returns the intersected mesh unchanged when the operator is
  \<open>BOOLEAN_NONE\<close>. (On an empty input the first return comes before the
  intersection.)
\<close>

theorem boolean_trimesh_unchanged:
  "(length tm_in = 0 \<longrightarrow>
      boolean_trimesh dbg ext tm_in op nshapes shape_fn use_self = Inr tm_in)
   \<and> (length tm_in \<noteq> 0 \<longrightarrow>
      boolean_trimesh dbg ext tm_in BOOLEAN_NONE nshapes shape_fn use_self =
        Inr (if use_self then trimesh_self_intersect ext tm_in
             else trimesh_nary_intersect ext tm_in nshapes shape_fn use_self))"
  by (simp add: boolean_trimesh_def Let_def)

theorem boolean_trimesh_unchanged_witness:
  "boolean_trimesh True ex_ext [] BOOLEAN_DIFFERENCE 2 (\<lambda>t. t) False = Inr []
   \<and> boolean_trimesh True ex_ext ex_tm BOOLEAN_NONE 1 (\<lambda>t. 0) True = Inr ex_tm"
proof -
  have a: "length ([] :: Mesh) = 0" by simp
  have b: "length ex_tm \<noteq> 0" by (simp add: ex_tm_def)
  from boolean_trimesh_unchanged [of "[]" True ex_ext BOOLEAN_DIFFERENCE 2 "\<lambda>t. t" False] a
  have 1: "boolean_trimesh True ex_ext [] BOOLEAN_DIFFERENCE 2 (\<lambda>t. t) False = Inr []"
    by blast
  from boolean_trimesh_unchanged [of ex_tm True ex_ext BOOLEAN_UNION 1 "\<lambda>t. 0" True] b
  have 2: "boolean_trimesh True ex_ext ex_tm BOOLEAN_NONE 1 (\<lambda>t. 0) True = Inr ex_tm"
    by (simp add: ex_ext_def)
  from 1 2 show ?thesis by blast
qed

text \<open>
  Claim C10. If the intersection collaborator, run on a non-empty input, produces a
  mesh with zero faces, \<^verbatim>\<open>boolean_trimesh\<close> returns that empty mesh for every operator,
  also for the operators other than \<open>BOOLEAN_NONE\<close>: the result does not depend on any
  step of the topological phase, and no failure of that phase can occur.
\<close>

theorem boolean_trimesh_empty_intersection:
  assumes "length tm_in \<noteq> 0"
    and "tm_si = (if use_self then trimesh_self_intersect ext tm_in
                  else trimesh_nary_intersect ext tm_in nshapes shape_fn use_self)"
    and "length tm_si = 0"
  shows "boolean_trimesh dbg ext tm_in op nshapes shape_fn use_self = Inr tm_si"
  using assms by (simp add: boolean_trimesh_def Let_def)

theorem boolean_trimesh_empty_intersection_witness:
  "length ex_tm \<noteq> 0
   \<and> length (trimesh_nary_intersect ex_ext_degenerate ex_tm 1 (\<lambda>t. 0) False) = 0
   \<and> boolean_trimesh True ex_ext_degenerate ex_tm BOOLEAN_UNION 1 (\<lambda>t. 0) False = Inr []"
proof -
  have a: "length ex_tm \<noteq> 0" by (simp add: ex_tm_def)
  have b: "[] = (if False then trimesh_self_intersect ex_ext_degenerate ex_tm
                 else trimesh_nary_intersect ex_ext_degenerate ex_tm 1 (\<lambda>t. 0) False)"
    by (simp add: ex_ext_degenerate_def)
  have c: "length ([] :: Mesh) = 0" by simp
  from boolean_trimesh_empty_intersection [OF a b c, of True BOOLEAN_UNION] a
  show ?thesis by (simp add: ex_ext_degenerate_def)
qed

section \<open>The guard of the gather loop\<close>

lemma merge_tris_for_face_Nil: "merge_tris_for_face dbg mext [] tm pm_in = Inr []"
  by (simp add: merge_tris_for_face_def init_face_merge_state_def do_dissolve_def empty_fms_def)

lemma gather_tri_length:
  "gather_tri tm_out t fot = Inr fot' \<Longrightarrow> length fot' = length fot"
  by (auto simp: gather_tri_def bindE_eq_Inr Let_def)

lemma foldE_gather_tri_length:
  "foldE (gather_tri tm_out) ts fot = Inr fot' \<Longrightarrow> length fot' = length fot"
proof (induction ts arbitrary: fot)
  case Nil
  then show ?case by simp
next
  case (Cons t ts)
  from Cons.prems obtain f1 where s: "gather_tri tm_out t fot = Inr f1"
    and r: "foldE (gather_tri tm_out) ts f1 = Inr fot'"
    by (auto split: sum.splits)
  from gather_tri_length [OF s] Cons.IH [OF r] show ?case by simp
qed

lemma merge_face_step_guards:
  assumes k: "k < length fot" and l: "length fof = length fot" and e: "fof ! k = []"
  shows "merge_face_step True dbg mext tm_out pm_in fot (int k) fof =
         merge_face_step False dbg mext tm_out pm_in fot (int k) fof"
proof -
  from k have g: "get_at fot (int k) = Inr (fot ! k)" by (simp add: get_at_def)
  from k l have h: "get_at fof (int k) = Inr (fof ! k)" by (simp add: get_at_def)
  from k have n: "int (length fot) \<noteq> 0" by auto
  show ?thesis
  proof (cases "fot ! k = []")
    case True
    have "fof[k := []] = fof" using e by (metis list_update_id)
    then show ?thesis
      using n by (simp add: merge_face_step_def g h True merge_tris_for_face_Nil)
  next
    case False
    then show ?thesis
      using n by (simp add: merge_face_step_def g h)
  qed
qed

lemma merge_face_step_frame:
  assumes "merge_face_step per_face dbg mext tm_out pm_in fot (int k) fof = Inr fof'"
  shows "length fof' = length fof \<and> (\<forall>j. j \<noteq> k \<longrightarrow> fof' ! j = fof ! j)"
  using assms
  by (auto simp: merge_face_step_def bindE_eq_Inr split: if_splits)

lemma merge_face_loop_guards:
  assumes n: "n = length fot"
  shows "length fof = n \<Longrightarrow> \<forall>j. k \<le> j \<and> j < n \<longrightarrow> fof ! j = [] \<Longrightarrow>
    foldE (merge_face_step True dbg mext tm_out pm_in fot) (map int [k ..< n]) fof =
    foldE (merge_face_step False dbg mext tm_out pm_in fot) (map int [k ..< n]) fof"
proof (induction "n - k" arbitrary: k fof)
  case 0
  then show ?case by simp
next
  case (Suc d)
  then have k: "k < n" by simp
  then have u: "[k ..< n] = k # [Suc k ..< n]" by (simp add: upt_conv_Cons)
  from k n have kl: "k < length fot" by simp
  from Suc.prems n have l: "length fof = length fot" by simp
  from Suc.prems k have e: "fof ! k = []" by simp
  note s = merge_face_step_guards [OF kl l e, of dbg mext tm_out pm_in]
  show ?case
  proof (cases "merge_face_step False dbg mext tm_out pm_in fot (int k) fof")
    case (Inl err)
    with s show ?thesis by (simp add: u)
  next
    case (Inr fof')
    from merge_face_step_frame [OF Inr] Suc.prems
    have f: "length fof' = n" "\<forall>j. Suc k \<le> j \<and> j < n \<longrightarrow> fof' ! j = []"
      by auto
    from Suc.hyps(2) have d: "d = n - Suc k" by simp
    from Suc.hyps(1) [OF d f] s Inr show ?thesis by (simp add: u)
  qed
qed

text \<open>
  Claim C9. Replacing the value \<^verbatim>\<open>face_output_tris.size()\<close> of the guard of the gather
  loop by the per-face count \<^verbatim>\<open>face_output_tris[in_f].size()\<close> yields an identical
  result, failures included: \<^verbatim>\<open>merge_tris_for_face\<close> on the empty list returns the empty
  face list, so an input face without output triangles contributes no output face
  under either guard.
\<close>

theorem polymesh_guard_equivalent:
  "polymesh_from_trimesh_per_face_guard dbg mext tm_out pm_in =
      polymesh_from_trimesh_with_dissolve dbg mext tm_out pm_in
   \<and> merge_tris_for_face dbg mext [] tm_out pm_in = Inr []"
proof -
  have "foldE (merge_face_step True dbg mext tm_out pm_in fot) (map int [0 ..< length pm_in])
          (replicate (length pm_in) []) =
        foldE (merge_face_step False dbg mext tm_out pm_in fot) (map int [0 ..< length pm_in])
          (replicate (length pm_in) [])"
    if "foldE (gather_tri tm_out) (map int [0 ..< length tm_out]) (replicate (length pm_in) [])
        = Inr fot" for fot
  proof -
    from foldE_gather_tri_length [OF that] have n: "length pm_in = length fot" by simp
    show ?thesis
      by (rule merge_face_loop_guards [OF n]) simp_all
  qed
  then have "polymesh_with_guard True dbg mext tm_out pm_in =
             polymesh_with_guard False dbg mext tm_out pm_in"
    unfolding polymesh_with_guard_def Let_def
    by (cases "foldE (gather_tri tm_out) (map int [0 ..< length tm_out])
                 (replicate (length pm_in) [])") simp_all
  then show ?thesis
    by (simp add: polymesh_from_trimesh_per_face_guard_def
        polymesh_from_trimesh_with_dissolve_def merge_tris_for_face_Nil)
qed

section \<open>The vertex dissolve\<close>

lemma takeWhile_index:
  "v \<in> set xs \<Longrightarrow>
   length (takeWhile (\<lambda>u. u \<noteq> v) xs) < length xs \<and> xs ! length (takeWhile (\<lambda>u. u \<noteq> v) xs) = v"
  by (induction xs) auto

lemma lookup_vert_in:
  assumes "v \<in> set verts"
  shows "0 \<le> lookup_vert verts v \<and> nat (lookup_vert verts v) < length verts
       \<and> verts ! nat (lookup_vert verts v) = v \<and> lookup_vert verts v \<noteq> NO_INDEX"
  using takeWhile_index [OF assms] assms by (simp add: lookup_vert_def NO_INDEX_def)

lemma lookup_vert_nth:
  assumes "distinct verts" "k < length verts"
  shows "lookup_vert verts (verts ! k) = int k"
proof -
  from assms(2) have i: "verts ! k \<in> set verts" by simp
  from lookup_vert_in [OF i] have a: "0 \<le> lookup_vert verts (verts ! k)"
    "nat (lookup_vert verts (verts ! k)) < length verts"
    "verts ! nat (lookup_vert verts (verts ! k)) = verts ! k"
    by simp_all
  from a(2,3) assms have "nat (lookup_vert verts (verts ! k)) = k"
    by (simp add: nth_eq_iff_index_eq)
  with a(1) show ?thesis by linarith
qed

lemma upd_length:
  "length (fst (upd verts st ev)) = length (fst st) \<and> length (snd (upd verts st ev)) = length (snd st)"
  by (cases st; cases ev) (auto simp: upd_def Let_def)

lemma neighbor_step_upd:
  assumes i: "i < length (vert f)" and v: "vert f ! i \<in> set verts"
    and l: "length d = length verts" "length nb = length verts"
  shows "neighbor_step dbg verts f (int i) (d, nb) = Inr (upd verts (d, nb) (face_events f ! i))"
proof -
  let ?n = "length (vert f)"
  from i have g: "get_at (vert f) (int i) = Inr (vert f ! i)" by (simp add: get_at_def)
  note k = lookup_vert_in [OF v]
  from i have n: "0 < ?n" by auto
  have np: "next_pos f (int i) = int ((i + 1) mod ?n)"
    by (simp add: next_pos_def zmod_int ac_simps)
  have pp: "prev_pos f (int i) = int ((i + ?n - 1) mod ?n)"
  proof -
    from n have "int i + int ?n - 1 = int (i + ?n - 1)" by linarith
    then have "prev_pos f (int i) = int (i + ?n - 1) mod int ?n"
      unfolding prev_pos_def by (simp only:)
    also have "\<dots> = int ((i + ?n - 1) mod ?n)" by (rule zmod_int [symmetric])
    finally show ?thesis .
  qed
  from n have g1: "get_at (vert f) (int ((i + 1) mod ?n)) = Inr (vert f ! ((i + 1) mod ?n))"
    and g2: "get_at (vert f) (int ((i + ?n - 1) mod ?n)) = Inr (vert f ! ((i + ?n - 1) mod ?n))"
    by (simp_all add: get_at_def)
  from k l have gd: "get_at d (lookup_vert verts (vert f ! i)) = Inr (d ! nat (lookup_vert verts (vert f ! i)))"
    and gn: "get_at nb (lookup_vert verts (vert f ! i)) = Inr (nb ! nat (lookup_vert verts (vert f ! i)))"
    by (auto simp: get_at_def)
  have ev: "face_events f ! i = (vert f ! i, vert f ! ((i + 1) mod ?n), vert f ! ((i + ?n - 1) mod ?n))"
    using i by (simp add: face_events_def)
  obtain a b where nbk: "nb ! nat (lookup_vert verts (vert f ! i)) = (a, b)"
    by (cases "nb ! nat (lookup_vert verts (vert f ! i))") auto
  have as: "BLI_assert dbg (lookup_vert verts (vert f ! i) \<noteq> NO_INDEX) = Inr ()"
    using k by simp
  show ?thesis
    unfolding neighbor_step_def ev upd_def prod.case g bindE_Inr Let_def as gd np pp g1 g2 gn nbk
      fst_conv snd_conv
    apply (cases "d ! nat (lookup_vert verts (vert f ! i))")
    apply (cases a)
    apply simp
      apply simp
    apply simp
    done
qed


lemma foldl_upd_length:
  "length (fst (foldl (upd verts) st evs)) = length (fst st)
   \<and> length (snd (foldl (upd verts) st evs)) = length (snd st)"
  by (induction evs arbitrary: st) (simp_all add: upd_length)

lemma neighbor_steps_upd:
  assumes v: "set (vert f) \<subseteq> set verts"
  shows "\<forall>j \<in> set js. j < length (vert f) \<Longrightarrow> length d = length verts \<Longrightarrow>
         length nb = length verts \<Longrightarrow>
    foldE (neighbor_step dbg verts f) (map int js) (d, nb) =
    Inr (foldl (upd verts) (d, nb) (map (\<lambda>j. face_events f ! j) js))"
proof (induction js arbitrary: d nb)
  case Nil
  then show ?case by simp
next
  case (Cons j js)
  then have j: "j < length (vert f)" by simp
  with v have jv: "vert f ! j \<in> set verts" by (meson nth_mem subsetD)
  obtain d' nb' where u: "upd verts (d, nb) (face_events f ! j) = (d', nb')"
    by (cases "upd verts (d, nb) (face_events f ! j)") auto
  from upd_length [of verts "(d, nb)" "face_events f ! j"] u Cons.prems
  have l: "length d' = length verts" "length nb' = length verts" by simp_all
  from Cons.prems have r: "\<forall>j \<in> set js. j < length (vert f)" by simp
  show ?case
    using neighbor_step_upd [OF j jv Cons.prems(2) Cons.prems(3), of dbg] u Cons.IH [OF r l]
    by simp
qed

lemma face_events_length [simp]: "length (face_events f) = length (vert f)"
  by (simp add: face_events_def)

lemma neighbor_face_upd:
  assumes "set (vert f) \<subseteq> set verts" "length d = length verts" "length nb = length verts"
  shows "neighbor_face dbg verts f (d, nb) = Inr (foldl (upd verts) (d, nb) (face_events f))"
proof -
  have "map (\<lambda>j. face_events f ! j) [0 ..< length (vert f)] = face_events f"
    using map_nth [of "face_events f"] by simp
  with neighbor_steps_upd [OF assms(1), of "[0 ..< length (vert f)]" d nb dbg] assms(2,3)
  show ?thesis by (simp add: neighbor_face_def)
qed

lemma neighbor_faces_upd:
  "\<forall>f \<in> set pm. set (vert f) \<subseteq> set verts \<Longrightarrow> length d = length verts \<Longrightarrow>
   length nb = length verts \<Longrightarrow>
   foldE (neighbor_face dbg verts) pm (d, nb) =
   Inr (foldl (upd verts) (d, nb) (concat (map face_events pm)))"
proof (induction pm arbitrary: d nb)
  case Nil
  then show ?case by simp
next
  case (Cons f pm)
  then have f: "set (vert f) \<subseteq> set verts" and r: "\<forall>f \<in> set pm. set (vert f) \<subseteq> set verts"
    by simp_all
  obtain d' nb' where u: "foldl (upd verts) (d, nb) (face_events f) = (d', nb')"
    by (cases "foldl (upd verts) (d, nb) (face_events f)") auto
  from foldl_upd_length [of verts "(d, nb)" "face_events f"] u Cons.prems
  have l: "length d' = length verts" "length nb' = length verts" by simp_all
  show ?case
    using neighbor_face_upd [OF f Cons.prems(2) Cons.prems(3), of dbg] u Cons.IH [OF r l]
    by simp
qed

lemma proj_upd:
  assumes v: "v \<in> set verts" and e: "fst ev \<in> set verts"
    and l: "length (fst st) = length verts" "length (snd st) = length verts"
  shows "proj verts v (upd verts st ev) = vstep v (proj verts v st) ev"
proof -
  obtain d nb where st: "st = (d, nb)" by (cases st) auto
  obtain v' n1 n2 where ev: "ev = (v', n1, n2)" by (cases ev) auto
  let ?k = "nat (lookup_vert verts v)" and ?k' = "nat (lookup_vert verts v')"
  from lookup_vert_in [OF v] have k: "?k < length verts" "verts ! ?k = v" by simp_all
  from lookup_vert_in [OF e [unfolded ev fst_conv]] have k': "?k' < length verts" "verts ! ?k' = v'"
    by simp_all
  show ?thesis
  proof (cases "v' = v")
    case True
    then show ?thesis
      using k l by (auto simp: st ev proj_def upd_def vstep_def Let_def)
  next
    case False
    with k k' have "?k' \<noteq> ?k" by auto
    then show ?thesis
      using False by (auto simp: st ev proj_def upd_def vstep_def Let_def)
  qed
qed

lemma proj_foldl_upd:
  assumes v: "v \<in> set verts"
  shows "\<forall>ev \<in> set evs. fst ev \<in> set verts \<Longrightarrow> length (fst st) = length verts \<Longrightarrow>
         length (snd st) = length verts \<Longrightarrow>
         proj verts v (foldl (upd verts) st evs) = foldl (vstep v) (proj verts v st) evs"
proof (induction evs arbitrary: st)
  case Nil
  then show ?case by simp
next
  case (Cons ev evs)
  then have e: "fst ev \<in> set verts" and r: "\<forall>ev \<in> set evs. fst ev \<in> set verts" by simp_all
  from upd_length [of verts st ev] Cons.prems
  have l: "length (fst (upd verts st ev)) = length verts"
    "length (snd (upd verts st ev)) = length verts" by simp_all
  show ?case
    using Cons.IH [OF r l] proj_upd [OF v e Cons.prems(2) Cons.prems(3)] by simp
qed

lemma vstep_False: "foldl (vstep v) (False, nbk) evs = (False, nbk)"
  by (induction evs) (simp_all add: vstep_def)

lemma vstep_Some:
  "foldl (vstep v) (dk, Some a, Some b) evs =
     (dk \<and> list_all (\<lambda>r. same_pair r (a, b)) (pairs_of v evs), Some a, Some b)"
proof (induction evs arbitrary: dk)
  case Nil
  then show ?case by (simp add: pairs_of_def)
next
  case (Cons ev evs)
  obtain v' n1 n2 where ev: "ev = (v', n1, n2)" by (cases ev) auto
  show ?case
  proof (cases "v' = v \<and> dk")
    case True
    then have s: "vstep v (dk, Some a, Some b) ev =
        (same_pair (n1, n2) (a, b), Some a, Some b)"
      by (auto simp: vstep_def ev same_pair_def)
    from True have p: "pairs_of v (ev # evs) = (n1, n2) # pairs_of v evs"
      by (simp add: pairs_of_def ev)
    have "foldl (vstep v) (dk, Some a, Some b) (ev # evs) =
        foldl (vstep v) (same_pair (n1, n2) (a, b), Some a, Some b) evs"
      by (simp only: foldl_Cons s)
    with True show ?thesis by (simp add: p Cons.IH)
  next
    case False
    then have s: "vstep v (dk, Some a, Some b) ev = (dk, Some a, Some b)"
      by (auto simp: vstep_def ev)
    have u: "foldl (vstep v) (dk, Some a, Some b) (ev # evs) =
        foldl (vstep v) (dk, Some a, Some b) evs"
      by (simp only: foldl_Cons s)
    show ?thesis
    proof (cases dk)
      case True
      with False have "v' \<noteq> v" by simp
      then have "pairs_of v (ev # evs) = pairs_of v evs" by (simp add: pairs_of_def ev)
      then show ?thesis by (simp only: u Cons.IH)
    next
      case False
      then have "dk = False" by simp
      then show ?thesis by (simp only: u vstep_False) simp
    qed
  qed
qed

lemma vstep_None:
  "foldl (vstep v) (True, None, None) evs =
     (case pairs_of v evs of
        [] \<Rightarrow> (True, None, None)
      | q # rest \<Rightarrow> (list_all (\<lambda>r. same_pair r q) rest, Some (fst q), Some (snd q)))"
proof (induction evs)
  case Nil
  then show ?case by (simp add: pairs_of_def)
next
  case (Cons ev evs)
  obtain v' n1 n2 where ev: "ev = (v', n1, n2)" by (cases ev) auto
  show ?case
  proof (cases "v' = v")
    case True
    then have s: "vstep v (True, None, None) ev = (True, Some n1, Some n2)"
      by (simp add: vstep_def ev)
    from True have p: "pairs_of v (ev # evs) = (n1, n2) # pairs_of v evs"
      by (simp add: pairs_of_def ev)
    show ?thesis by (simp add: s p vstep_Some)
  next
    case False
    then have s: "vstep v (True, None, None) ev = (True, None, None)"
      by (simp add: vstep_def ev)
    from False have p: "pairs_of v (ev # evs) = pairs_of v evs"
      by (simp add: pairs_of_def ev)
    show ?thesis by (simp add: s p Cons.IH)
  qed
qed

lemma mapE_all:
  "\<forall>x \<in> set xs. f x = Inr (g x) \<Longrightarrow> mapE f xs = Inr (map g xs)"
  by (induction xs) simp_all

lemma events_in_verts:
  "\<forall>ev \<in> set (concat (map face_events pm)). fst ev \<in> set (populate_vert pm)"
  by (auto simp: face_events_def populate_vert_def) (meson nth_mem)

lemma faces_in_verts: "\<forall>f \<in> set pm. set (vert f) \<subseteq> set (populate_vert pm)"
  by (auto simp: populate_vert_def)

lemma populate_vert_distinct: "distinct (populate_vert pm)"
  by (simp add: populate_vert_def)

lemma neighbor_pairs_pairs_of: "neighbor_pairs pm v = pairs_of v (concat (map face_events pm))"
  by (simp add: neighbor_pairs_def pairs_of_def)

lemma length_filter_map_id: "length (filter (\<lambda>b. b) (map P xs)) = length (filter P xs)"
  by (induction xs) auto

lemma find_dissolve_verts_exact:
  "find_dissolve_verts dbg pm =
     Inr (map (dissolved pm) (populate_vert pm),
          int (length (filter (dissolved pm) (populate_vert pm))))"
proof -
  let ?verts = "populate_vert pm"
  let ?d0 = "map (\<lambda>v. vorig v = NO_INDEX) ?verts"
  let ?nb0 = "replicate (length ?verts) (None :: Vert option, None :: Vert option)"
  let ?evs = "concat (map face_events pm)"
  obtain d1 nb1 where f: "foldl (upd ?verts) (?d0, ?nb0) ?evs = (d1, nb1)"
    by (cases "foldl (upd ?verts) (?d0, ?nb0) ?evs") auto
  have loop: "foldE (neighbor_face dbg ?verts) pm (?d0, ?nb0) = Inr (d1, nb1)"
    using neighbor_faces_upd [OF faces_in_verts, where d = ?d0 and nb = ?nb0 and dbg = dbg] f
    by simp
  from foldl_upd_length [of ?verts "(?d0, ?nb0)" ?evs] f
  have l: "length d1 = length ?verts" "length nb1 = length ?verts" by simp_all
  have c: "collinear_step dbg ?verts d1 nb1 (int k) = Inr (dissolved pm (?verts ! k))"
    if k: "k < length ?verts" for k
  proof -
    let ?v = "?verts ! k"
    from k have v: "?v \<in> set ?verts" by simp
    from lookup_vert_nth [OF populate_vert_distinct k] have i: "nat (lookup_vert ?verts ?v) = k"
      by simp
    have "proj ?verts ?v (foldl (upd ?verts) (?d0, ?nb0) ?evs)
          = foldl (vstep ?v) (proj ?verts ?v (?d0, ?nb0)) ?evs"
      by (rule proj_foldl_upd [OF v events_in_verts]) simp_all
    moreover have "proj ?verts ?v (?d0, ?nb0) = (vorig ?v = NO_INDEX, None, None)"
      using k by (simp add: proj_def i)
    ultimately have p: "(d1 ! k, nb1 ! k) = foldl (vstep ?v) (vorig ?v = NO_INDEX, None, None) ?evs"
      using f by (simp add: proj_def i)
    from k l have g: "get_at d1 (int k) = Inr (d1 ! k)" "get_at nb1 (int k) = Inr (nb1 ! k)"
      "get_at ?verts (int k) = Inr ?v"
      by (simp_all add: get_at_def)
    show ?thesis
    proof (cases "vorig ?v = NO_INDEX")
      case False
      with p have "d1 ! k = False" by (simp add: vstep_False)
      with False show ?thesis by (simp add: collinear_step_def g dissolved_def)
    next
      case True
      show ?thesis
      proof (cases "neighbor_pairs pm ?v")
        case Nil
        with p True have "nb1 ! k = (None, None)"
          by (simp add: vstep_None neighbor_pairs_pairs_of)
        with True Nil show ?thesis by (simp add: collinear_step_def g dissolved_def)
      next
        case (Cons q rest)
        with p True have dk: "d1 ! k = list_all (\<lambda>r. same_pair r q) rest"
          and nk: "nb1 ! k = (Some (fst q), Some (snd q))"
          by (simp_all add: vstep_None neighbor_pairs_pairs_of)
        have x: "(fst (mpq3_cross a b) = 0 \<and> fst (snd (mpq3_cross a b)) = 0
                 \<and> snd (snd (mpq3_cross a b)) = 0) = (mpq3_cross a b = (0, 0, 0))" for a b
          by (cases "mpq3_cross a b") auto
        show ?thesis
          by (simp add: collinear_step_def g dk nk True Cons dissolved_def Let_def x collinear_def)
      qed
    qed
  qed
  have m: "mapE (collinear_step dbg ?verts d1 nb1) (map int [0 ..< length ?verts])
        = Inr (map (dissolved pm) ?verts)"
  proof -
    have "mapE (collinear_step dbg ?verts d1 nb1) (map int [0 ..< length ?verts])
        = Inr (map (\<lambda>j. dissolved pm (?verts ! nat j)) (map int [0 ..< length ?verts]))"
      by (rule mapE_all) (auto simp: c)
    also have "map (\<lambda>j. dissolved pm (?verts ! nat j)) (map int [0 ..< length ?verts])
        = map (dissolved pm) (map (\<lambda>k. ?verts ! k) [0 ..< length ?verts])"
      by simp
    also have "\<dots> = map (dissolved pm) ?verts" by (simp only: map_nth)
    finally show ?thesis .
  qed
  show ?thesis
    unfolding find_dissolve_verts_def Let_def loop bindE_Inr prod.case m
    by (simp only: length_filter_map_id)
qed


lemma erase_filter:
  "map fst (filter (\<lambda>(x, erase). \<not> erase) (zip xs (map P xs))) = filter (\<lambda>x. \<not> P x) xs"
  by (induction xs) auto

lemma dissolve_face_exact:
  assumes f: "set (vert f) \<subseteq> set (populate_vert pm)"
  shows "\<exists>f'. dissolve_face dbg (populate_vert pm) (map (dissolved pm) (populate_vert pm)) f = Inr f'
     \<and> vert f' = filter (\<lambda>v. \<not> dissolved pm v) (vert f) \<and> orig f' = orig f"
proof -
  let ?verts = "populate_vert pm"
  have g: "(let v_index = lookup_vert ?verts v in
            bindE (BLI_assert dbg (v_index \<noteq> NO_INDEX))
              (\<lambda>_. get_at (map (dissolved pm) ?verts) v_index)) = Inr (dissolved pm v)"
    if "v \<in> set (vert f)" for v
  proof -
    from that f have "v \<in> set ?verts" by auto
    from lookup_vert_in [OF this] show ?thesis
      by (auto simp: Let_def get_at_def)
  qed
  then have m: "mapE (\<lambda>v. let v_index = lookup_vert ?verts v in
            bindE (BLI_assert dbg (v_index \<noteq> NO_INDEX))
              (\<lambda>_. get_at (map (dissolved pm) ?verts) v_index)) (vert f)
        = Inr (map (dissolved pm) (vert f))"
    by (intro mapE_all) simp
  show ?thesis
  proof (cases "0 < length (filter (\<lambda>b. b) (map (dissolved pm) (vert f)))")
    case True
    have "dissolve_face dbg ?verts (map (dissolved pm) ?verts) f =
        Inr (erase_face_positions f (map (dissolved pm) (vert f)))"
      unfolding dissolve_face_def m [unfolded Let_def] bindE_Inr Let_def using True
      by (simp only: if_True)
    then show ?thesis
      by (simp add: erase_face_positions_def erase_filter)
  next
    case False
    have r: "dissolve_face dbg ?verts (map (dissolved pm) ?verts) f = Inr f"
      unfolding dissolve_face_def m [unfolded Let_def] bindE_Inr Let_def using False
      by (simp only: if_False)
    from False have "filter (\<lambda>b. b) (map (dissolved pm) (vert f)) = []"
      by (simp only: length_greater_0_conv not_not)
    then have "\<forall>b \<in> set (map (dissolved pm) (vert f)). \<not> b"
      by (simp only: filter_empty_conv)
    then have "\<forall>v \<in> set (vert f). \<not> dissolved pm v"
      by simp
    then have "filter (\<lambda>v. \<not> dissolved pm v) (vert f) = vert f" by simp
    with r show ?thesis by simp
  qed
qed

lemma mapE_ex:
  "\<forall>x \<in> set xs. \<exists>y. f x = Inr y \<and> P x y \<Longrightarrow>
   \<exists>ys. mapE f xs = Inr ys \<and> list_all2 P xs ys"
proof (induction xs)
  case Nil
  then show ?case by simp
next
  case (Cons x xs)
  then obtain y ys where "f x = Inr y" "P x y" "mapE f xs = Inr ys" "list_all2 P xs ys"
    by auto
  then show ?case by simp
qed

lemma list_all2_maps:
  "list_all2 (\<lambda>f f'. vert f' = F f \<and> orig f' = orig f) xs ys \<Longrightarrow>
   map vert ys = map F xs \<and> map orig ys = map orig xs"
  by (induction xs ys rule: list_all2_induct) auto

lemma dissolve_verts_exact:
  "\<exists>pm'. dissolve_verts dbg pm (map (dissolved pm) (populate_vert pm)) = Inr pm'
     \<and> map vert pm' = map (\<lambda>f. filter (\<lambda>v. \<not> dissolved pm v) (vert f)) pm
     \<and> map orig pm' = map orig pm"
proof -
  have "\<forall>f \<in> set pm. \<exists>f'.
      dissolve_face dbg (populate_vert pm) (map (dissolved pm) (populate_vert pm)) f = Inr f'
      \<and> (vert f' = filter (\<lambda>v. \<not> dissolved pm v) (vert f) \<and> orig f' = orig f)"
    using dissolve_face_exact faces_in_verts by blast
  from mapE_ex [OF this] obtain pm' where
    r: "dissolve_verts dbg pm (map (dissolved pm) (populate_vert pm)) = Inr pm'"
    and a: "list_all2 (\<lambda>f f'. vert f' = filter (\<lambda>v. \<not> dissolved pm v) (vert f) \<and> orig f' = orig f)
              pm pm'"
    by (auto simp: dissolve_verts_def)
  from list_all2_maps [OF a] r show ?thesis by blast
qed

lemma collinear_swap: "collinear w v u = collinear u v w"
proof -
  obtain ux uy uz where u: "co_exact u = (ux, uy, uz)" by (cases "co_exact u") auto
  obtain vx vy vz where v: "co_exact v = (vx, vy, vz)" by (cases "co_exact v") auto
  obtain wx wy wz where w: "co_exact w = (wx, wy, wz)" by (cases "co_exact w") auto
  have c: "(vy - wy) * (uz - vz) - (vz - wz) * (uy - vy)
             = - ((vy - uy) * (wz - vz) - (vz - uz) * (wy - vy))"
    "(vz - wz) * (ux - vx) - (vx - wx) * (uz - vz)
             = - ((vz - uz) * (wx - vx) - (vx - ux) * (wz - vz))"
    "(vx - wx) * (uy - vy) - (vy - wy) * (ux - vx)
             = - ((vx - ux) * (wy - vy) - (vy - uy) * (wx - vx))"
    by (simp_all add: algebra_simps)
  show ?thesis
    unfolding collinear_def mpq3_cross_def mpq3_sub_def u v w prod.case prod.inject c
      neg_equal_0_iff_equal ..
qed

lemma dissolved_iff:
  assumes v: "v \<in> set (populate_vert pm)"
  shows "dissolved pm v \<longleftrightarrow>
     (vorig v = NO_INDEX
      \<and> (\<exists>u w. (\<forall>q \<in> set (neighbor_pairs pm v). q = (u, w) \<or> q = (w, u)) \<and> collinear u v w))"
proof -
  from v obtain f where f: "f \<in> set pm" "v \<in> set (vert f)"
    by (auto simp: populate_vert_def)
  then obtain i where i: "i < length (vert f)" "vert f ! i = v"
    by (auto simp: in_set_conv_nth)
  then have "i < length (face_events f)" by simp
  then have "face_events f ! i \<in> set (face_events f)" by (rule nth_mem)
  moreover from i have fe: "fst (face_events f ! i) = v"
    by (simp add: face_events_def)
  ultimately have "face_events f ! i \<in> set (face_events f)" and fe: "fst (face_events f ! i) = v"
    by blast+
  with f(1) have "face_events f ! i \<in> set (concat (map face_events pm))"
    by auto
  with fe have "face_events f ! i \<in> set (filter (\<lambda>ev. fst ev = v) (concat (map face_events pm)))"
    by simp
  then have "filter (\<lambda>ev. fst ev = v) (concat (map face_events pm)) \<noteq> []"
    by (metis empty_iff empty_set)
  then have "neighbor_pairs pm v \<noteq> []"
    by (simp add: neighbor_pairs_def)
  then obtain q rest where ne: "neighbor_pairs pm v = q # rest"
    by (cases "neighbor_pairs pm v") auto
  obtain a b where q: "q = (a, b)" by (cases q) auto
  show ?thesis
  proof
    assume d: "dissolved pm v"
    then have o: "vorig v = NO_INDEX" and la: "list_all (\<lambda>r. same_pair r (a, b)) rest"
      and c: "collinear a v b"
      by (simp_all add: dissolved_def ne q)
    from la have "\<forall>r \<in> set rest. r = (a, b) \<or> r = (b, a)"
      by (simp add: list_all_iff same_pair_def)
    then have "\<forall>r \<in> set (neighbor_pairs pm v). r = (a, b) \<or> r = (b, a)"
      by (simp add: ne q)
    with c have "\<exists>u w. (\<forall>q \<in> set (neighbor_pairs pm v). q = (u, w) \<or> q = (w, u)) \<and> collinear u v w"
      by blast
    with o show "vorig v = NO_INDEX
      \<and> (\<exists>u w. (\<forall>q \<in> set (neighbor_pairs pm v). q = (u, w) \<or> q = (w, u)) \<and> collinear u v w)"
      by (rule conjI)
  next
    assume "vorig v = NO_INDEX
      \<and> (\<exists>u w. (\<forall>q \<in> set (neighbor_pairs pm v). q = (u, w) \<or> q = (w, u)) \<and> collinear u v w)"
    then obtain u w where o: "vorig v = NO_INDEX"
      and a: "\<forall>r \<in> set (neighbor_pairs pm v). r = (u, w) \<or> r = (w, u)"
      and c: "collinear u v w"
      by blast
    from a have ab: "(a, b) = (u, w) \<or> (a, b) = (w, u)" by (simp add: ne q)
    from a have r: "\<forall>r \<in> set rest. r = (u, w) \<or> r = (w, u)" by (simp add: ne)
    have "\<forall>r \<in> set rest. same_pair r (a, b)"
    proof
      fix r assume "r \<in> set rest"
      with r have "r = (u, w) \<or> r = (w, u)" by blast
      with ab show "same_pair r (a, b)"
        unfolding same_pair_def by (elim disjE) simp_all
    qed
    then have la: "list_all (\<lambda>r. same_pair r (a, b)) rest" by (simp add: list_all_iff)
    from ab have "collinear a v b"
    proof
      assume "(a, b) = (u, w)" with c show ?thesis by simp
    next
      assume "(a, b) = (w, u)" with c collinear_swap [of w v u] show ?thesis by simp
    qed
    with o la show "dissolved pm v"
      by (simp add: dissolved_def ne q)
  qed
qed

lemma dissolved_collinear:
  assumes "dissolved pm v" "q \<in> set (neighbor_pairs pm v)"
  shows "collinear (fst q) v (snd q) \<and> collinear (snd q) v (fst q)"
proof -
  from assms obtain p rest where ne: "neighbor_pairs pm v = p # rest"
    by (cases "neighbor_pairs pm v") auto
  from assms(1) have c: "collinear (fst p) v (snd p)"
    and s: "\<forall>r \<in> set rest. same_pair r p"
    by (simp_all add: dissolved_def ne list_all_iff)
  have sp: "same_pair q p"
  proof (cases "q = p")
    case True
    then show ?thesis by (simp add: same_pair_def)
  next
    case False
    with assms(2) ne have "q \<in> set rest" by simp
    with s show ?thesis by blast
  qed
  then consider "q = p" | "q = (snd p, fst p)" unfolding same_pair_def by blast
  then show ?thesis
  proof cases
    case 1
    with c collinear_swap [of "snd p" v "fst p"] show ?thesis by simp
  next
    case 2
    with c collinear_swap [of "snd p" v "fst p"] show ?thesis by simp
  qed
qed


text \<open>
  Claim C8. A vertex of the polygonal mesh is dissolved iff its \<open>orig\<close> is \<open>NO_INDEX\<close>,
  it has the same unordered pair of neighbour vertices \<open>(u, w)\<close> in every face that
  contains it, and the exact cross product of \<open>v - u\<close> and \<open>w - v\<close> is zero in all
  three components: \<^verbatim>\<open>find_dissolve_verts\<close> marks exactly these vertices and counts
  them. \<^verbatim>\<open>dissolve_verts\<close> erases exactly the marked vertices from the vertex sequence
  of every face. Every erased vertex is exactly collinear with its two neighbours
  in every face that contains it, which is the sense in which the spec says that
  the dissolve leaves the geometry of the polygon alone.
\<close>

theorem vertex_dissolve_exact:
  "find_dissolve_verts dbg pm =
     Inr (map (dissolved pm) (populate_vert pm),
          int (length (filter (dissolved pm) (populate_vert pm))))
   \<and> (\<exists>pm'. dissolve_verts dbg pm (map (dissolved pm) (populate_vert pm)) = Inr pm'
         \<and> map vert pm' = map (\<lambda>f. filter (\<lambda>v. \<not> dissolved pm v) (vert f)) pm
         \<and> map orig pm' = map orig pm)
   \<and> (\<forall>v \<in> set (populate_vert pm).
         dissolved pm v \<longleftrightarrow>
           (vorig v = NO_INDEX
            \<and> (\<exists>u w. (\<forall>q \<in> set (neighbor_pairs pm v). q = (u, w) \<or> q = (w, u))
                      \<and> collinear u v w)))
   \<and> (\<forall>v. dissolved pm v \<longrightarrow>
         (\<forall>q \<in> set (neighbor_pairs pm v).
            collinear (fst q) v (snd q) \<and> collinear (snd q) v (fst q)))"
  using find_dissolve_verts_exact [of dbg pm] dissolve_verts_exact [of dbg pm]
    dissolved_iff [of _ pm] dissolved_collinear [of pm]
  by blast

lemma ex_poly_dissolved:
  "map (dissolved ex_poly) (populate_vert ex_poly) = [False, True, False, False]"
proof -
  have v: "populate_vert ex_poly = [mk_vert 0 0 0 0, ex_M, mk_vert 2 2 0 0, mk_vert 3 2 2 0]"
    by (simp add: populate_vert_def ex_poly_def mk_vert_def ex_M_def)
  have e: "concat (map face_events ex_poly) =
      [(mk_vert 0 0 0 0, ex_M, mk_vert 3 2 2 0), (ex_M, mk_vert 2 2 0 0, mk_vert 0 0 0 0),
       (mk_vert 2 2 0 0, mk_vert 3 2 2 0, ex_M), (mk_vert 3 2 2 0, mk_vert 0 0 0 0, mk_vert 2 2 0 0)]"
    by (simp add: face_events_def ex_poly_def upt_rec)
  have o: "vorig (mk_vert 0 0 0 0) \<noteq> NO_INDEX" "vorig (mk_vert 2 2 0 0) \<noteq> NO_INDEX"
    "vorig (mk_vert 3 2 2 0) \<noteq> NO_INDEX" "vorig ex_M = NO_INDEX"
    by (simp_all add: mk_vert_def NO_INDEX_def ex_M_def)
  have n: "neighbor_pairs ex_poly ex_M = [(mk_vert 2 2 0 0, mk_vert 0 0 0 0)]"
    by (simp add: neighbor_pairs_def e) (simp add: mk_vert_def ex_M_def)
  have c: "collinear (mk_vert 2 2 0 0) ex_M (mk_vert 0 0 0 0)"
    by (simp add: collinear_def mpq3_cross_def mpq3_sub_def mk_vert_def ex_M_def)
  show ?thesis
    by (simp add: v dissolved_def o n c)
qed

theorem vertex_dissolve_exact_witness:
  "find_dissolve_verts True ex_poly = Inr ([False, True, False, False], 1)
   \<and> (\<exists>pm'. dissolve_verts True ex_poly [False, True, False, False] = Inr pm'
         \<and> map vert pm' = [[mk_vert 0 0 0 0, mk_vert 2 2 0 0, mk_vert 3 2 2 0]])"
proof -
  have v: "populate_vert ex_poly = [mk_vert 0 0 0 0, ex_M, mk_vert 2 2 0 0, mk_vert 3 2 2 0]"
    by (simp add: populate_vert_def ex_poly_def mk_vert_def ex_M_def)
  have d: "dissolved ex_poly (mk_vert 0 0 0 0) = False" "dissolved ex_poly ex_M = True"
    "dissolved ex_poly (mk_vert 2 2 0 0) = False" "dissolved ex_poly (mk_vert 3 2 2 0) = False"
    using ex_poly_dissolved by (simp_all add: v)
  have f: "filter (dissolved ex_poly) (populate_vert ex_poly) = [ex_M]"
    by (simp add: v d)
  have m: "map (\<lambda>f. filter (\<lambda>v. \<not> dissolved ex_poly v) (vert f)) ex_poly =
      [[mk_vert 0 0 0 0, mk_vert 2 2 0 0, mk_vert 3 2 2 0]]"
  proof -
    have vf: "map vert ex_poly = [[mk_vert 0 0 0 0, ex_M, mk_vert 2 2 0 0, mk_vert 3 2 2 0]]"
      by (simp add: ex_poly_def)
    have "map (\<lambda>f. filter (\<lambda>v. \<not> dissolved ex_poly v) (vert f)) ex_poly =
        map (filter (\<lambda>v. \<not> dissolved ex_poly v)) (map vert ex_poly)"
      by (simp add: comp_def)
    then show ?thesis
      unfolding vf by (simp add: d)
  qed
  have "find_dissolve_verts True ex_poly =
        Inr (map (dissolved ex_poly) (populate_vert ex_poly),
             int (length (filter (dissolved ex_poly) (populate_vert ex_poly))))
      \<and> (\<exists>pm'. dissolve_verts True ex_poly (map (dissolved ex_poly) (populate_vert ex_poly)) = Inr pm'
            \<and> map vert pm' = map (\<lambda>f. filter (\<lambda>v. \<not> dissolved ex_poly v) (vert f)) ex_poly)"
    using vertex_dissolve_exact [of True ex_poly] by blast
  then show ?thesis
    unfolding ex_poly_dissolved f m by simp
qed

section \<open>The patches partition the triangles\<close>

lemma topo_add_side_inv:
  assumes inv: "topo_inv R topo" and len: "length (vert tri_t) = 3" and i: "i \<in> {0, 1, 2}"
  shows "\<exists>topo'. topo_add_side t tri_t i topo = Inr topo'
           \<and> topo_inv (insert (t, side_key tri_t (nat i)) R) topo'"
proof -
  define a where "a = vert tri_t ! nat i"
  define b where "b = vert tri_t ! nat ((i + 1) mod 3)"
  define k where "k = edge_key (mk_Edge a b)"
  have ga: "get_at (vert tri_t) i = Inr a"
    using len i by (auto simp: get_at_def a_def)
  have gb: "get_at (vert tri_t) ((i + 1) mod 3) = Inr b"
    using len i by (auto simp: get_at_def b_def)
  have kk: "side_key tri_t (nat i) = k"
    using i by (auto simp: side_key_def k_def a_def b_def numeral_2_eq_2)
  define tris where "tris = (case edge_tri topo k of None \<Rightarrow> [t]
      | Some ts \<Rightarrow> append_non_duplicates ts t)"
  define topo' where "topo' = topo\<lparr>edge_tri := (edge_tri topo)(k \<mapsto> tris),
      vert_edges := (vert_edges topo)(a \<mapsto> append_non_duplicates_edge
        (case vert_edges topo a of None \<Rightarrow> [] | Some es \<Rightarrow> es) (mk_Edge a b))\<rparr>"
  have r: "topo_add_side t tri_t i topo = Inr topo'"
    by (simp add: topo_add_side_def ga gb Let_def topo'_def tris_def k_def)
  have e: "edge_tri topo' = (edge_tri topo)(k \<mapsto> tris)"
    by (simp add: topo'_def)
  have t: "distinct tris \<and> set tris = insert t {t'. (t', k) \<in> R}"
  proof (cases "edge_tri topo k")
    case None
    from inv have "case edge_tri topo k of None \<Rightarrow> \<forall>t. (t, k) \<notin> R
        | Some ts \<Rightarrow> distinct ts \<and> set ts = {t. (t, k) \<in> R}"
      unfolding topo_inv_def by blast
    with None have "\<forall>t. (t, k) \<notin> R" by simp
    with None show ?thesis by (simp add: tris_def)
  next
    case (Some ts)
    from inv have "case edge_tri topo k of None \<Rightarrow> \<forall>t. (t, k) \<notin> R
        | Some ts \<Rightarrow> distinct ts \<and> set ts = {t. (t, k) \<in> R}"
      unfolding topo_inv_def by blast
    with Some have "distinct ts \<and> set ts = {t. (t, k) \<in> R}" by simp
    with Some show ?thesis by (auto simp: tris_def append_non_duplicates_def)
  qed
  have "topo_inv (insert (t, k) R) topo'"
    unfolding topo_inv_def
  proof
    fix k'
    show "case edge_tri topo' k' of None \<Rightarrow> \<forall>ta. (ta, k') \<notin> insert (t, k) R
        | Some ts \<Rightarrow> distinct ts \<and> set ts = {ta. (ta, k') \<in> insert (t, k) R}"
    proof (cases "k' = k")
      case True
      with t show ?thesis by (auto simp: e)
    next
      case False
      from inv have "case edge_tri topo k' of None \<Rightarrow> \<forall>t. (t, k') \<notin> R
        | Some ts \<Rightarrow> distinct ts \<and> set ts = {t. (t, k') \<in> R}"
        unfolding topo_inv_def by blast
      with False show ?thesis by (auto simp: e split: option.splits)
    qed
  qed
  with r kk show ?thesis by auto
qed

lemma topo_add_tri_inv:
  assumes inv: "topo_inv R topo" and t: "0 \<le> t" "nat t < length tm" and tri: "is_tri (tm ! nat t)"
  shows "\<exists>topo'. topo_add_tri dbg tm t topo = Inr topo'
           \<and> topo_inv (R \<union> incidences tm [t]) topo'"
proof -
  let ?f = "tm ! nat t"
  from tri have len: "length (vert ?f) = 3" by (simp add: is_tri_def)
  from topo_add_side_inv [OF inv len, of 0 t] obtain t0 where
    s0: "topo_add_side t ?f 0 topo = Inr t0" and i0: "topo_inv (insert (t, side_key ?f 0) R) t0"
    by auto
  from topo_add_side_inv [OF i0 len, of 1 t] obtain t1 where
    s1: "topo_add_side t ?f 1 t0 = Inr t1"
    and i1: "topo_inv (insert (t, side_key ?f 1) (insert (t, side_key ?f 0) R)) t1"
    by auto
  from topo_add_side_inv [OF i1 len, of 2 t] obtain t2 where
    s2: "topo_add_side t ?f 2 t1 = Inr t2"
    and i2: "topo_inv (insert (t, side_key ?f 2) (insert (t, side_key ?f 1)
        (insert (t, side_key ?f 0) R))) t2"
    by auto
  have "insert (t, side_key ?f 2) (insert (t, side_key ?f 1) (insert (t, side_key ?f 0) R)) =
      R \<union> incidences tm [t]"
    by (auto simp: incidences_def tri_keys_def)
  with i2 have "topo_inv (R \<union> incidences tm [t]) t2" by simp
  moreover have "topo_add_tri dbg tm t topo = Inr t2"
    using t tri by (simp add: topo_add_tri_def get_at_def BLI_assert_def s0 s1 s2)
  ultimately show ?thesis by blast
qed

lemma topo_fold_inv:
  assumes "topo_inv R topo" and "\<forall>t \<in> set ts. 0 \<le> t \<and> nat t < length tm \<and> is_tri (tm ! nat t)"
  shows "\<exists>topo'. foldE (topo_add_tri dbg tm) ts topo = Inr topo'
           \<and> topo_inv (R \<union> incidences tm ts) topo'"
  using assms
proof (induction ts arbitrary: R topo)
  case Nil
  then show ?case by (simp add: incidences_def)
next
  case (Cons t ts)
  from Cons.prems have "0 \<le> t" "nat t < length tm" "is_tri (tm ! nat t)" by auto
  from topo_add_tri_inv [OF Cons.prems(1) this, of dbg] obtain t1 where
    s: "topo_add_tri dbg tm t topo = Inr t1" and i: "topo_inv (R \<union> incidences tm [t]) t1"
    by auto
  from Cons.IH [OF i] Cons.prems(2) obtain t2 where
    f: "foldE (topo_add_tri dbg tm) ts t1 = Inr t2"
    and j: "topo_inv (R \<union> incidences tm [t] \<union> incidences tm ts) t2"
    by auto
  have "R \<union> incidences tm [t] \<union> incidences tm ts = R \<union> incidences tm (t # ts)"
    by (auto simp: incidences_def)
  with j s f show ?case by simp
qed

lemma TriMeshTopology_ctor_ok:
  assumes tri: "list_all is_tri tm" and c: "TriMeshTopology_ctor dbg tm = Inr topo"
  shows "topo_ok tm topo"
proof -
  have "topo_inv {} empty_topo"
    by (simp add: topo_inv_def empty_topo_def)
  moreover from tri have "\<forall>t \<in> set (map int [0 ..< length tm]).
      0 \<le> t \<and> nat t < length tm \<and> is_tri (tm ! nat t)"
    by (auto simp: list_all_length)
  ultimately have "\<exists>topo'. foldE (topo_add_tri dbg tm) (map int [0 ..< length tm]) empty_topo = Inr topo'
      \<and> topo_inv ({} \<union> incidences tm (map int [0 ..< length tm])) topo'"
    by (rule topo_fold_inv)
  with c have inv: "topo_inv (incidences tm (map int [0 ..< length tm])) topo"
    by (simp add: TriMeshTopology_ctor_def)
  have s: "{t. (t, k) \<in> incidences tm (map int [0 ..< length tm])} = int ` set (incident tm k)" for k
    by (auto simp: incidences_def incident_def)
  show ?thesis
    unfolding topo_ok_def
  proof
    fix k
    from inv have "case edge_tri topo k of
        None \<Rightarrow> \<forall>t. (t, k) \<notin> incidences tm (map int [0 ..< length tm])
      | Some ts \<Rightarrow> distinct ts \<and> set ts = {t. (t, k) \<in> incidences tm (map int [0 ..< length tm])}"
      unfolding topo_inv_def by blast
    then show "case edge_tri topo k of None \<Rightarrow> incident tm k = []
      | Some ts \<Rightarrow> distinct ts \<and> set ts = int ` set (incident tm k)"
      using s [of k] by (auto split: option.splits)
  qed
qed

lemma topo_ok_Some:
  assumes "topo_ok tm topo" and "edge_tri topo k = Some ts"
  shows "distinct ts" and "set ts = int ` set (incident tm k)"
    and "length ts = length (incident tm k)"
proof -
  from assms(1) have "case edge_tri topo k of None \<Rightarrow> incident tm k = []
      | Some ts \<Rightarrow> distinct ts \<and> set ts = int ` set (incident tm k)"
    unfolding topo_ok_def by blast
  with assms(2) have d: "distinct ts \<and> set ts = int ` set (incident tm k)" by simp
  then show "distinct ts" and s: "set ts = int ` set (incident tm k)" by auto
  have "distinct (incident tm k)" by (simp add: incident_def)
  then have "length (incident tm k) = card (set (incident tm k))"
    by (simp add: distinct_card)
  also have "\<dots> = card (int ` set (incident tm k))"
    by (simp add: card_image)
  also have "\<dots> = length ts"
    using d by (metis distinct_card)
  finally show "length ts = length (incident tm k)" by simp
qed

lemma topo_ok_key:
  assumes "topo_ok tm topo" and "t < length tm" and "k \<in> set (tri_keys (tm ! t))"
  shows "\<exists>ts. edge_tri topo k = Some ts \<and> int t \<in> set ts"
proof -
  from assms(2,3) have i: "t \<in> set (incident tm k)" by (simp add: incident_def)
  show ?thesis
  proof (cases "edge_tri topo k")
    case None
    from assms(1) have "case edge_tri topo k of None \<Rightarrow> incident tm k = []
        | Some ts \<Rightarrow> distinct ts \<and> set ts = int ` set (incident tm k)"
      unfolding topo_ok_def by blast
    with None have "incident tm k = []" by simp
    with i show ?thesis by simp
  next
    case (Some ts)
    from topo_ok_Some(2) [OF assms(1) Some] i show ?thesis using Some by auto
  qed
qed

lemma incident_mem: "t \<in> set (incident tm k) \<longleftrightarrow> t < length tm \<and> k \<in> set (tri_keys (tm ! t))"
  by (auto simp: incident_def)

lemma pp_ext_refl: "pp_ext pinfo pinfo"
  by (simp add: pp_ext_def)

lemma pp_ext_trans: "pp_ext a b \<Longrightarrow> pp_ext b c \<Longrightarrow> pp_ext a c"
  by (simp add: pp_ext_def)

lemma shares_sym: "shares tm pinfo p q k \<Longrightarrow> shares tm pinfo q p k"
  unfolding shares_def by blast

lemma incidence_step_inv:
  assumes inv: "pp_inv tm pinfo"
    and tc: "tcand < length tm" "tri_patch pinfo ! tcand = cur" "cur \<noteq> NO_INDEX"
    and k: "edge_key e \<in> set (tri_keys (tm ! tcand))" "non_manifold tm (edge_key e)"
    and o: "0 \<le> t_other" "nat t_other < length tm"
      "edge_key e \<in> set (tri_keys (tm ! nat t_other))"
  shows "\<exists>pinfo'. incidence_step dbg cur (int tcand) e t_other pinfo = Inr pinfo'
           \<and> pp_ext pinfo pinfo' \<and> pp_inv tm pinfo'
           \<and> (t_other \<noteq> int tcand \<and> tri_patch pinfo ! nat t_other \<noteq> NO_INDEX
                \<and> tri_patch pinfo ! nat t_other \<noteq> cur
              \<longrightarrow> pp_edge pinfo' (cur, tri_patch pinfo ! nat t_other) \<noteq> None)"
proof -
  define po where "po = tri_patch pinfo ! nat t_other"
  from inv have len: "length (tri_patch pinfo) = length tm" and sym: "pp_sym pinfo"
    and sound: "pp_sound tm pinfo"
    by (simp_all add: pp_inv_def)
  have ga: "get_at (tri_patch pinfo) t_other = Inr po"
    using o len by (simp add: get_at_def po_def)
  have as: "tri_is_assigned pinfo t_other = Inr (po \<noteq> NO_INDEX)"
    by (simp add: tri_is_assigned_def ga)
  show ?thesis
  proof (cases "t_other \<noteq> int tcand \<and> po \<noteq> NO_INDEX \<and> po \<noteq> cur
      \<and> pp_edge pinfo (cur, po) = None")
    case False
    then have "incidence_step dbg cur (int tcand) e t_other pinfo = Inr pinfo"
      by (auto simp: incidence_step_def as ga patch_patch_edge_def)
    with False inv show ?thesis
      by (auto simp: pp_ext_refl po_def)
  next
    case True
    then have ne: "po \<noteq> cur" and n1: "pp_edge pinfo (cur, po) = None" and pn: "po \<noteq> NO_INDEX"
      by auto
    from sym n1 have n2: "pp_edge pinfo (po, cur) = None"
      by (simp add: pp_sym_def)
    define pinfo' where
      "pinfo' = pinfo\<lparr>pp_edge := ((pp_edge pinfo)((cur, po) \<mapsto> e))((po, cur) \<mapsto> e)\<rparr>"
    have a: "add_new_patch_patch_edge dbg pinfo cur po e = Inr pinfo'"
      using ne n1 n2 by (simp add: add_new_patch_patch_edge_def BLI_assert_def Let_def pinfo'_def)
    have r: "incidence_step dbg cur (int tcand) e t_other pinfo = Inr pinfo'"
      using True by (simp add: incidence_step_def as ga patch_patch_edge_def a)
    have tp: "tri_patch pinfo' = tri_patch pinfo" "patch pinfo' = patch pinfo"
      by (simp_all add: pinfo'_def)
    have pe1: "pp_edge pinfo' (cur, po) = Some e" and pe2: "pp_edge pinfo' (po, cur) = Some e"
      by (simp_all add: pinfo'_def)
    have pe3: "pp_edge pinfo' x = pp_edge pinfo x" if "x \<noteq> (cur, po)" "x \<noteq> (po, cur)" for x
      using that by (simp add: pinfo'_def)
    have mono: "pp_edge pinfo' x \<noteq> None" if "pp_edge pinfo x \<noteq> None" for x
    proof (cases "x = (cur, po) \<or> x = (po, cur)")
      case True
      then show ?thesis using pe1 pe2 by auto
    next
      case False
      then show ?thesis using pe3 [of x] that by simp
    qed
    have ext: "pp_ext pinfo pinfo'"
      using mono by (simp add: pp_ext_def tp)
    have sh: "shares tm pinfo' p q kk = shares tm pinfo p q kk" for p q kk
      by (simp add: shares_def tp)
    have s1: "shares tm pinfo cur po (edge_key e)"
      unfolding shares_def using tc k o pn po_def by blast
    have s2: "shares tm pinfo po cur (edge_key e)"
      using s1 by (rule shares_sym)
    have none: "pp_edge pinfo' (p, q) = None \<longleftrightarrow>
        (p, q) \<noteq> (cur, po) \<and> (p, q) \<noteq> (po, cur) \<and> pp_edge pinfo (p, q) = None" for p q
    proof (cases "(p, q) = (cur, po) \<or> (p, q) = (po, cur)")
      case True
      then show ?thesis using pe1 pe2 by auto
    next
      case False
      then show ?thesis using pe3 [of "(p, q)"] by simp
    qed
    have sym': "pp_sym pinfo'"
      unfolding pp_sym_def
    proof (intro allI)
      fix p q
      from sym have "pp_edge pinfo (p, q) = None \<longleftrightarrow> pp_edge pinfo (q, p) = None"
        by (simp add: pp_sym_def)
      then show "pp_edge pinfo' (p, q) = None \<longleftrightarrow> pp_edge pinfo' (q, p) = None"
        unfolding none by auto
    qed
    have sound': "pp_sound tm pinfo'"
      unfolding pp_sound_def
    proof (intro allI impI)
      fix p q e'
      assume h: "pp_edge pinfo' (p, q) = Some e'"
      show "p \<noteq> q \<and> shares tm pinfo' p q (edge_key e')"
      proof (cases "(p, q) = (cur, po) \<or> (p, q) = (po, cur)")
        case True
        with h pe1 pe2 have "e' = e" by auto
        with True s1 s2 ne show ?thesis by (auto simp: sh)
      next
        case False
        with h pe3 [of "(p, q)"] have "pp_edge pinfo (p, q) = Some e'" by simp
        with sound show ?thesis by (simp add: pp_sound_def sh)
      qed
    qed
    have "pp_inv tm pinfo'"
      using len sym' sound' by (simp add: pp_inv_def tp)
    moreover have "pp_edge pinfo' (cur, po) \<noteq> None" by (simp add: pe1)
    ultimately show ?thesis using r ext by (auto simp: po_def)
  qed
qed

lemma foldE_incidence_step_inv:
  assumes inv: "pp_inv tm pinfo"
    and tc: "tcand < length tm" "tri_patch pinfo ! tcand = cur" "cur \<noteq> NO_INDEX"
    and k: "edge_key e \<in> set (tri_keys (tm ! tcand))" "non_manifold tm (edge_key e)"
    and o: "\<forall>t \<in> set ts. 0 \<le> t \<and> nat t < length tm \<and> edge_key e \<in> set (tri_keys (tm ! nat t))"
  shows "\<exists>pinfo'. foldE (incidence_step dbg cur (int tcand) e) ts pinfo = Inr pinfo'
           \<and> pp_ext pinfo pinfo' \<and> pp_inv tm pinfo'
           \<and> (\<forall>t \<in> set ts. t \<noteq> int tcand \<and> tri_patch pinfo ! nat t \<noteq> NO_INDEX
                \<and> tri_patch pinfo ! nat t \<noteq> cur
              \<longrightarrow> pp_edge pinfo' (cur, tri_patch pinfo ! nat t) \<noteq> None)"
  using inv tc(2) o
proof (induction ts arbitrary: pinfo)
  case Nil
  then show ?case by (simp add: pp_ext_refl)
next
  case (Cons t ts)
  from Cons.prems(3) have ot: "0 \<le> t" "nat t < length tm"
    "edge_key e \<in> set (tri_keys (tm ! nat t))"
    by auto
  from incidence_step_inv [OF Cons.prems(1) tc(1) Cons.prems(2) tc(3) k ot, of dbg]
  obtain p1 where s: "incidence_step dbg cur (int tcand) e t pinfo = Inr p1"
    and e1: "pp_ext pinfo p1" and i1: "pp_inv tm p1"
    and c1: "t \<noteq> int tcand \<and> tri_patch pinfo ! nat t \<noteq> NO_INDEX
                \<and> tri_patch pinfo ! nat t \<noteq> cur
              \<longrightarrow> pp_edge p1 (cur, tri_patch pinfo ! nat t) \<noteq> None"
    by blast
  from e1 have tp1: "tri_patch p1 = tri_patch pinfo" by (simp add: pp_ext_def)
  from Cons.prems(2) tp1 have tc1: "tri_patch p1 ! tcand = cur" by simp
  from Cons.prems(3) have o1: "\<forall>t \<in> set ts. 0 \<le> t \<and> nat t < length tm
      \<and> edge_key e \<in> set (tri_keys (tm ! nat t))"
    by simp
  from Cons.IH [OF i1 tc1 o1]
  obtain p2 where f: "foldE (incidence_step dbg cur (int tcand) e) ts p1 = Inr p2"
    and e2: "pp_ext p1 p2" and i2: "pp_inv tm p2"
    and c2: "\<forall>t \<in> set ts. t \<noteq> int tcand \<and> tri_patch p1 ! nat t \<noteq> NO_INDEX
                \<and> tri_patch p1 ! nat t \<noteq> cur
              \<longrightarrow> pp_edge p2 (cur, tri_patch p1 ! nat t) \<noteq> None"
    by blast
  have r: "foldE (incidence_step dbg cur (int tcand) e) (t # ts) pinfo = Inr p2"
    by (simp add: s f)
  from c1 e2 have c1': "t \<noteq> int tcand \<and> tri_patch pinfo ! nat t \<noteq> NO_INDEX
                \<and> tri_patch pinfo ! nat t \<noteq> cur
              \<longrightarrow> pp_edge p2 (cur, tri_patch pinfo ! nat t) \<noteq> None"
    by (simp add: pp_ext_def)
  from r pp_ext_trans [OF e1 e2] i2 c1' c2 show ?case
    by (simp add: tp1)
qed

lemma side_key_in_tri_keys: "i \<in> {0, 1, 2} \<Longrightarrow> side_key f (nat i) \<in> set (tri_keys f)"
  by (auto simp: tri_keys_def)

lemma tri_keys_side: "k \<in> set (tri_keys f) \<Longrightarrow> \<exists>i \<in> {0, 1, 2::int}. k = side_key f (nat i)"
  by (auto simp: tri_keys_def)

lemma side_step_inv:
  assumes inv: "pp_inv tm pinfo" and topo: "topo_ok tm tmtopo"
    and tc: "tcand < length tm" "tri_patch pinfo ! tcand = cur" "cur \<noteq> NO_INDEX"
    and tri: "is_tri (tm ! tcand)" and i: "i \<in> {0, 1, 2}"
  shows "\<exists>pinfo' stack'.
           side_step dbg tmtopo cur (int tcand) (tm ! tcand) i (pinfo, stack) = Inr (pinfo', stack')
           \<and> pp_ext pinfo pinfo' \<and> pp_inv tm pinfo'
           \<and> set stack \<subseteq> set stack'
           \<and> (\<forall>t \<in> set stack'. t \<in> set stack \<or> (0 \<le> t \<and> nat t < length tm))
           \<and> (\<forall>t < length tm. t \<noteq> tcand \<and> tri_patch pinfo ! t \<noteq> NO_INDEX
                  \<and> tri_patch pinfo ! t \<noteq> cur
                  \<and> side_key (tm ! tcand) (nat i) \<in> set (tri_keys (tm ! t))
                  \<and> non_manifold tm (side_key (tm ! tcand) (nat i))
                \<longrightarrow> pp_edge pinfo' (cur, tri_patch pinfo ! t) \<noteq> None)"
proof -
  let ?f = "tm ! tcand"
  define a where "a = vert ?f ! nat i"
  define b where "b = vert ?f ! nat ((i + 1) mod 3)"
  define e where "e = mk_Edge a b"
  define k where "k = edge_key e"
  from tri have len3: "length (vert ?f) = 3" by (simp add: is_tri_def)
  from inv have len: "length (tri_patch pinfo) = length tm" by (simp add: pp_inv_def)
  have ga: "get_at (vert ?f) i = Inr a"
    using len3 i by (auto simp: get_at_def a_def)
  have gb: "get_at (vert ?f) ((i + 1) mod 3) = Inr b"
    using len3 i by (auto simp: get_at_def b_def)
  have kk: "side_key ?f (nat i) = k"
    using i by (auto simp: side_key_def k_def e_def a_def b_def numeral_2_eq_2)
  from side_key_in_tri_keys [OF i, of ?f] kk have kin: "k \<in> set (tri_keys ?f)" by simp
  from topo_ok_key [OF topo tc(1) kin] obtain ts where
    et: "edge_tri tmtopo k = Some ts" and tin: "int tcand \<in> set ts"
    by blast
  note ts = topo_ok_Some [OF topo et]
  have rng: "0 \<le> t \<and> nat t < length tm \<and> k \<in> set (tri_keys (tm ! nat t))" if "t \<in> set ts" for t
    using that ts(2) by (auto simp: incident_mem)
  show ?thesis
  proof (cases "length ts = 2")
    case True
    define t_other where "t_other = (if ts ! 0 = int tcand then ts ! 1 else ts ! 0)"
    from True have "t_other \<in> set ts" by (simp add: t_other_def)
    from rng [OF this] have to: "0 \<le> t_other" "nat t_other < length tm" by auto
    then have nn: "t_other \<noteq> NO_INDEX" by (simp add: NO_INDEX_def)
    have ot: "other_tri_if_manifold tmtopo e (int tcand) = t_other"
      using True et by (simp add: other_tri_if_manifold_def k_def [symmetric] t_other_def)
    have as: "tri_is_assigned pinfo t_other = Inr (tri_patch pinfo ! nat t_other \<noteq> NO_INDEX)"
      using to len by (simp add: tri_is_assigned_def get_at_def)
    have r: "side_step dbg tmtopo cur (int tcand) ?f i (pinfo, stack) =
        Inr (pinfo, if tri_patch pinfo ! nat t_other \<noteq> NO_INDEX then stack else t_other # stack)"
      using nn by (simp add: side_step_def ga gb Let_def e_def [symmetric] ot as)
    from True ts(3) have "\<not> non_manifold tm k" by (simp add: non_manifold_def)
    with r inv to show ?thesis
      by (auto simp: pp_ext_refl kk)
  next
    case False
    have ot: "other_tri_if_manifold tmtopo e (int tcand) = NO_INDEX"
      using False et by (simp add: other_tri_if_manifold_def k_def [symmetric])
    have es: "edge_tris tmtopo e = Some ts"
      using et by (simp add: edge_tris_def k_def)
    from False ts(3) have nm: "non_manifold tm (edge_key e)"
      by (simp add: non_manifold_def k_def)
    from kin have kin': "edge_key e \<in> set (tri_keys ?f)" by (simp add: k_def)
    from rng have o: "\<forall>t \<in> set ts. 0 \<le> t \<and> nat t < length tm
        \<and> edge_key e \<in> set (tri_keys (tm ! nat t))"
      by (simp add: k_def)
    from foldE_incidence_step_inv [OF inv tc kin' nm o, of dbg]
    obtain pinfo' where f: "foldE (incidence_step dbg cur (int tcand) e) ts pinfo = Inr pinfo'"
      and ext: "pp_ext pinfo pinfo'" and inv': "pp_inv tm pinfo'"
      and cov: "\<forall>t \<in> set ts. t \<noteq> int tcand \<and> tri_patch pinfo ! nat t \<noteq> NO_INDEX
                \<and> tri_patch pinfo ! nat t \<noteq> cur
              \<longrightarrow> pp_edge pinfo' (cur, tri_patch pinfo ! nat t) \<noteq> None"
      by blast
    have r: "side_step dbg tmtopo cur (int tcand) ?f i (pinfo, stack) = Inr (pinfo', stack)"
      by (simp add: side_step_def ga gb Let_def e_def [symmetric] ot es f)
    have c: "pp_edge pinfo' (cur, tri_patch pinfo ! t) \<noteq> None"
      if "t < length tm" "t \<noteq> tcand" "tri_patch pinfo ! t \<noteq> NO_INDEX"
        "tri_patch pinfo ! t \<noteq> cur" "k \<in> set (tri_keys (tm ! t))" for t
    proof -
      from that(1,5) have "t \<in> set (incident tm k)" by (simp add: incident_mem)
      with ts(2) have "int t \<in> set ts" by simp
      with cov that show ?thesis by auto
    qed
    from r ext inv' c show ?thesis
      by (auto simp: kk)
  qed
qed

lemma foldE_side_step_inv:
  assumes inv: "pp_inv tm pinfo" and topo: "topo_ok tm tmtopo"
    and tc: "tcand < length tm" "tri_patch pinfo ! tcand = cur" "cur \<noteq> NO_INDEX"
    and tri: "is_tri (tm ! tcand)" and i: "set is \<subseteq> {0, 1, 2}"
  shows "\<exists>pinfo' stack'.
           foldE (side_step dbg tmtopo cur (int tcand) (tm ! tcand)) is (pinfo, stack) =
             Inr (pinfo', stack')
           \<and> pp_ext pinfo pinfo' \<and> pp_inv tm pinfo'
           \<and> set stack \<subseteq> set stack'
           \<and> (\<forall>t \<in> set stack'. t \<in> set stack \<or> (0 \<le> t \<and> nat t < length tm))
           \<and> (\<forall>t < length tm. \<forall>i \<in> set is. t \<noteq> tcand \<and> tri_patch pinfo ! t \<noteq> NO_INDEX
                  \<and> tri_patch pinfo ! t \<noteq> cur
                  \<and> side_key (tm ! tcand) (nat i) \<in> set (tri_keys (tm ! t))
                  \<and> non_manifold tm (side_key (tm ! tcand) (nat i))
                \<longrightarrow> pp_edge pinfo' (cur, tri_patch pinfo ! t) \<noteq> None)"
  using inv tc(2) i
proof (induction "is" arbitrary: pinfo stack)
  case Nil
  then show ?case by (simp add: pp_ext_refl)
next
  case (Cons i "is")
  from Cons.prems(3) have i: "i \<in> {0, 1, 2}" and is': "set is \<subseteq> {0, 1, 2}" by auto
  from side_step_inv [OF Cons.prems(1) topo tc(1) Cons.prems(2) tc(3) tri i, of dbg stack]
  obtain p1 s1 where
    s: "side_step dbg tmtopo cur (int tcand) (tm ! tcand) i (pinfo, stack) = Inr (p1, s1)"
    and e1: "pp_ext pinfo p1" and i1: "pp_inv tm p1"
    and su1: "set stack \<subseteq> set s1"
    and st1: "\<forall>t \<in> set s1. t \<in> set stack \<or> (0 \<le> t \<and> nat t < length tm)"
    and c1: "\<forall>t < length tm. t \<noteq> tcand \<and> tri_patch pinfo ! t \<noteq> NO_INDEX
                  \<and> tri_patch pinfo ! t \<noteq> cur
                  \<and> side_key (tm ! tcand) (nat i) \<in> set (tri_keys (tm ! t))
                  \<and> non_manifold tm (side_key (tm ! tcand) (nat i))
                \<longrightarrow> pp_edge p1 (cur, tri_patch pinfo ! t) \<noteq> None"
    by blast
  from e1 have tp1: "tri_patch p1 = tri_patch pinfo" by (simp add: pp_ext_def)
  from Cons.prems(2) tp1 have tc1: "tri_patch p1 ! tcand = cur" by simp
  from Cons.IH [OF i1 tc1 is', of s1]
  obtain p2 s2 where
    f: "foldE (side_step dbg tmtopo cur (int tcand) (tm ! tcand)) is (p1, s1) = Inr (p2, s2)"
    and e2: "pp_ext p1 p2" and i2: "pp_inv tm p2"
    and su2: "set s1 \<subseteq> set s2"
    and st2: "\<forall>t \<in> set s2. t \<in> set s1 \<or> (0 \<le> t \<and> nat t < length tm)"
    and c2: "\<forall>t < length tm. \<forall>i \<in> set is. t \<noteq> tcand \<and> tri_patch p1 ! t \<noteq> NO_INDEX
                  \<and> tri_patch p1 ! t \<noteq> cur
                  \<and> side_key (tm ! tcand) (nat i) \<in> set (tri_keys (tm ! t))
                  \<and> non_manifold tm (side_key (tm ! tcand) (nat i))
                \<longrightarrow> pp_edge p2 (cur, tri_patch p1 ! t) \<noteq> None"
    by blast
  have r: "foldE (side_step dbg tmtopo cur (int tcand) (tm ! tcand)) (i # is) (pinfo, stack) =
      Inr (p2, s2)"
    by (simp add: s f)
  from c1 e2 have c1': "\<forall>t < length tm. t \<noteq> tcand \<and> tri_patch pinfo ! t \<noteq> NO_INDEX
                  \<and> tri_patch pinfo ! t \<noteq> cur
                  \<and> side_key (tm ! tcand) (nat i) \<in> set (tri_keys (tm ! t))
                  \<and> non_manifold tm (side_key (tm ! tcand) (nat i))
                \<longrightarrow> pp_edge p2 (cur, tri_patch pinfo ! t) \<noteq> None"
    by (simp add: pp_ext_def)
  from st1 st2 have st: "\<forall>t \<in> set s2. t \<in> set stack \<or> (0 \<le> t \<and> nat t < length tm)"
    by blast
  from c1' c2 have c: "\<forall>t < length tm. \<forall>j \<in> set (i # is). t \<noteq> tcand
                  \<and> tri_patch pinfo ! t \<noteq> NO_INDEX
                  \<and> tri_patch pinfo ! t \<noteq> cur
                  \<and> side_key (tm ! tcand) (nat j) \<in> set (tri_keys (tm ! t))
                  \<and> non_manifold tm (side_key (tm ! tcand) (nat j))
                \<longrightarrow> pp_edge p2 (cur, tri_patch pinfo ! t) \<noteq> None"
    unfolding tp1 by (simp only: set_simps ball_simps) blast
  from su1 su2 have su: "set stack \<subseteq> set s2" by blast
  from r pp_ext_trans [OF e1 e2] i2 su st c show ?case
    by blast
qed

lemma pinfo_wf_ext: "pp_ext pinfo pinfo' \<Longrightarrow> pinfo_wf n pinfo \<Longrightarrow> pinfo_wf n pinfo'"
  by (simp add: pp_ext_def pinfo_wf_def)

lemma grow_patch_wf:
  assumes wf: "pinfo_wf n pinfo"
    and tc: "tcand < n" "tri_patch pinfo ! tcand = NO_INDEX"
    and cur: "0 \<le> cur" "nat cur < length (patch pinfo)"
  shows "\<exists>pinfo1. grow_patch pinfo cur (int tcand) = Inr pinfo1
           \<and> tri_patch pinfo1 = (tri_patch pinfo)[tcand := cur]
           \<and> pp_edge pinfo1 = pp_edge pinfo
           \<and> length (patch pinfo1) = length (patch pinfo)
           \<and> pinfo_wf n pinfo1"
proof -
  from wf have len: "length (tri_patch pinfo) = n"
    and old: "\<And>p. p < length (patch pinfo) \<Longrightarrow> distinct (tri (patch pinfo ! p))
        \<and> set (tri (patch pinfo ! p)) = {int t |t. t < n \<and> tri_patch pinfo ! t = int p}"
    and bnd: "\<And>t. t < n \<Longrightarrow> tri_patch pinfo ! t = NO_INDEX
        \<or> (0 \<le> tri_patch pinfo ! t \<and> nat (tri_patch pinfo ! t) < length (patch pinfo))"
    by (simp_all add: pinfo_wf_def)
  define pa where "pa = patch pinfo ! nat cur"
  define pinfo1 where "pinfo1 = pinfo\<lparr>tri_patch := (tri_patch pinfo)[tcand := cur],
      patch := (patch pinfo)[nat cur := add_tri pa (int tcand)]\<rparr>"
  have r: "grow_patch pinfo cur (int tcand) = Inr pinfo1"
    using tc(1) cur len by (simp add: grow_patch_def get_at_def pinfo1_def pa_def)
  have tp: "tri_patch pinfo1 = (tri_patch pinfo)[tcand := cur]"
    and pe: "pp_edge pinfo1 = pp_edge pinfo"
    and pt: "patch pinfo1 = (patch pinfo)[nat cur := add_tri pa (int tcand)]"
    by (simp_all add: pinfo1_def)
  have tpn: "tri_patch pinfo1 ! t = (if t = tcand then cur else tri_patch pinfo ! t)" if "t < n" for t
    using that len tc(1) by (simp add: tp nth_list_update)
  have cn: "cur \<noteq> NO_INDEX" using cur by (simp add: NO_INDEX_def)
  have w2: "tri_patch pinfo1 ! t = NO_INDEX
        \<or> (0 \<le> tri_patch pinfo1 ! t \<and> nat (tri_patch pinfo1 ! t) < length (patch pinfo1))"
    if "t < n" for t
    using that bnd [OF that] cur by (simp add: tpn pt)
  have w3: "distinct (tri (patch pinfo1 ! p))
        \<and> set (tri (patch pinfo1 ! p)) = {int t |t. t < n \<and> tri_patch pinfo1 ! t = int p}"
    if p: "p < length (patch pinfo)" for p
  proof (cases "p = nat cur")
    case True
    then have ip: "int p = cur" using cur by simp
    have tr: "tri (patch pinfo1 ! p) = tri (patch pinfo ! p) @ [int tcand]"
      using True p by (simp add: pt add_tri_def pa_def)
    have notin: "int tcand \<notin> set (tri (patch pinfo ! p))"
      using old [OF p] tc(2) by (auto simp: NO_INDEX_def)
    have "{int t |t. t < n \<and> tri_patch pinfo1 ! t = int p} =
        insert (int tcand) {int t |t. t < n \<and> tri_patch pinfo ! t = int p}"
      using tc ip cn by (auto simp: tpn NO_INDEX_def split: if_splits)
    with old [OF p] notin tr show ?thesis by simp
  next
    case False
    then have ip: "int p \<noteq> cur" using cur by auto
    have tr: "tri (patch pinfo1 ! p) = tri (patch pinfo ! p)"
      using False p by (simp add: pt)
    have "{int t |t. t < n \<and> tri_patch pinfo1 ! t = int p} =
        {int t |t. t < n \<and> tri_patch pinfo ! t = int p}"
      using tc ip by (auto simp: tpn NO_INDEX_def split: if_splits)
    with old [OF p] tr show ?thesis by simp
  qed
  have "pinfo_wf n pinfo1"
    unfolding pinfo_wf_def using len w2 w3 by (simp add: tp pt)
  with r tp pe pt show ?thesis by simp
qed

lemma shares_grow:
  assumes s: "shares tm pinfo p q k" and len: "length (tri_patch pinfo) = length tm"
    and tc: "tri_patch pinfo ! tcand = NO_INDEX"
    and tp: "tri_patch pinfo1 = (tri_patch pinfo)[tcand := cur]"
  shows "shares tm pinfo1 p q k"
proof -
  from s obtain t1 t2 where pq: "p \<noteq> NO_INDEX" "q \<noteq> NO_INDEX"
    and t: "t1 < length tm" "t2 < length tm" "tri_patch pinfo ! t1 = p" "tri_patch pinfo ! t2 = q"
    and k: "k \<in> set (tri_keys (tm ! t1))" "k \<in> set (tri_keys (tm ! t2))" "non_manifold tm k"
    unfolding shares_def by blast
  from t pq tc have "t1 \<noteq> tcand" "t2 \<noteq> tcand" by auto
  with t have "tri_patch pinfo1 ! t1 = p" "tri_patch pinfo1 ! t2 = q"
    by (simp_all add: tp)
  with pq t k show ?thesis unfolding shares_def by blast
qed

lemma grow_step_inv:
  assumes fi: "find_inv tm pinfo" and topo: "topo_ok tm tmtopo" and tri: "is_tri (tm ! tcand)"
    and tc: "tcand < length tm" "tri_patch pinfo ! tcand = NO_INDEX"
    and cur: "0 \<le> cur" "nat cur < length (patch pinfo)"
  shows "\<exists>pinfo' stack'.
           grow_step dbg tm tmtopo cur (int tcand) (pinfo, stack) = Inr (pinfo', stack')
           \<and> tri_patch pinfo' = (tri_patch pinfo)[tcand := cur]
           \<and> length (patch pinfo') = length (patch pinfo)
           \<and> find_inv tm pinfo'
           \<and> set stack \<subseteq> set stack'
           \<and> (\<forall>t \<in> set stack'. t \<in> set stack \<or> (0 \<le> t \<and> nat t < length tm))"
proof -
  from fi have wf: "pinfo_wf (length tm) pinfo" and inv: "pp_inv tm pinfo"
    and compl: "pp_complete tm pinfo"
    by (simp_all add: find_inv_def)
  from inv have len: "length (tri_patch pinfo) = length tm" and sym: "pp_sym pinfo"
    and sound: "pp_sound tm pinfo"
    by (simp_all add: pp_inv_def)
  have cn: "cur \<noteq> NO_INDEX" using cur by (simp add: NO_INDEX_def)
  from grow_patch_wf [OF wf tc cur] obtain pinfo1 where
    gp: "grow_patch pinfo cur (int tcand) = Inr pinfo1"
    and tp1: "tri_patch pinfo1 = (tri_patch pinfo)[tcand := cur]"
    and pe1: "pp_edge pinfo1 = pp_edge pinfo"
    and pl1: "length (patch pinfo1) = length (patch pinfo)"
    and wf1: "pinfo_wf (length tm) pinfo1"
    by blast
  have sound1: "pp_sound tm pinfo1"
    unfolding pp_sound_def
  proof (intro allI impI)
    fix p q e
    assume "pp_edge pinfo1 (p, q) = Some e"
    with sound pe1 have "p \<noteq> q" "shares tm pinfo p q (edge_key e)"
      by (simp_all add: pp_sound_def)
    with shares_grow [OF _ len tc(2) tp1] show "p \<noteq> q \<and> shares tm pinfo1 p q (edge_key e)"
      by blast
  qed
  have inv1: "pp_inv tm pinfo1"
    using len sym sound1 by (simp add: pp_inv_def tp1 pp_sym_def pe1)
  have tc1: "tri_patch pinfo1 ! tcand = cur"
    using tc(1) len by (simp add: tp1)
  have g: "get_at tm (int tcand) = Inr (tm ! tcand)"
    using tc(1) by (simp add: get_at_def)
  from foldE_side_step_inv [OF inv1 topo tc(1) tc1 cn tri, of "[0, 1, 2]" dbg stack]
  obtain pinfo' stack' where
    f: "foldE (side_step dbg tmtopo cur (int tcand) (tm ! tcand)) [0, 1, 2] (pinfo1, stack) =
        Inr (pinfo', stack')"
    and ext: "pp_ext pinfo1 pinfo'" and inv': "pp_inv tm pinfo'"
    and su: "set stack \<subseteq> set stack'"
    and st: "\<forall>t \<in> set stack'. t \<in> set stack \<or> (0 \<le> t \<and> nat t < length tm)"
    and cov: "\<forall>t < length tm. \<forall>i \<in> set [0, 1, 2]. t \<noteq> tcand \<and> tri_patch pinfo1 ! t \<noteq> NO_INDEX
                  \<and> tri_patch pinfo1 ! t \<noteq> cur
                  \<and> side_key (tm ! tcand) (nat i) \<in> set (tri_keys (tm ! t))
                  \<and> non_manifold tm (side_key (tm ! tcand) (nat i))
                \<longrightarrow> pp_edge pinfo' (cur, tri_patch pinfo1 ! t) \<noteq> None"
    by auto
  have r: "grow_step dbg tm tmtopo cur (int tcand) (pinfo, stack) = Inr (pinfo', stack')"
    by (simp add: grow_step_def gp g f del: foldE.simps)
  from ext have tp': "tri_patch pinfo' = tri_patch pinfo1" and pt': "patch pinfo' = patch pinfo1"
    by (simp_all add: pp_ext_def)
  from ext have mono: "pp_edge pinfo' x \<noteq> None" if "pp_edge pinfo1 x \<noteq> None" for x
    unfolding pp_ext_def using that by blast
  from inv' have sym': "pp_sym pinfo'" by (simp add: pp_inv_def)
  have wf': "pinfo_wf (length tm) pinfo'"
    using ext wf1 by (rule pinfo_wf_ext)
  have cov': "pp_edge pinfo' (cur, q) \<noteq> None"
    if t: "t < length tm" "t \<noteq> tcand" "tri_patch pinfo1 ! t = q" "q \<noteq> NO_INDEX" "q \<noteq> cur"
      and k: "k \<in> set (tri_keys (tm ! tcand))" "k \<in> set (tri_keys (tm ! t))" "non_manifold tm k"
    for t q k
  proof -
    from tri_keys_side [OF k(1)] obtain i where i: "i \<in> {0, 1, 2::int}"
      and ki: "k = side_key (tm ! tcand) (nat i)"
      by blast
    from i have "i \<in> set [0, 1, 2]" by simp
    with cov t k ki show ?thesis by blast
  qed
  have compl': "pp_complete tm pinfo'"
    unfolding pp_complete_def
  proof (intro allI impI)
    fix p q k
    assume h: "p \<noteq> q \<and> shares tm pinfo' p q k"
    then obtain t1 t2 where pq: "p \<noteq> q" "p \<noteq> NO_INDEX" "q \<noteq> NO_INDEX"
      and t: "t1 < length tm" "t2 < length tm"
        "tri_patch pinfo1 ! t1 = p" "tri_patch pinfo1 ! t2 = q"
      and k: "k \<in> set (tri_keys (tm ! t1))" "k \<in> set (tri_keys (tm ! t2))" "non_manifold tm k"
      unfolding shares_def tp' by blast
    from pq(1) t(3,4) have ne: "t1 \<noteq> t2" by auto
    show "pp_edge pinfo' (p, q) \<noteq> None"
    proof (cases "t1 = tcand")
      case True
      with tc1 t(3) have pc: "p = cur" by simp
      from True ne have a: "t2 \<noteq> tcand" by simp
      from pc pq(1) have b: "q \<noteq> cur" by simp
      from True k(1) have c: "k \<in> set (tri_keys (tm ! tcand))" by simp
      from cov' [OF t(2) a t(4) pq(3) b c k(2) k(3)] pc show ?thesis by simp
    next
      case n1: False
      show ?thesis
      proof (cases "t2 = tcand")
        case True
        with tc1 t(4) have qc: "q = cur" by simp
        from qc pq(1) have b: "p \<noteq> cur" by simp
        from True k(2) have c: "k \<in> set (tri_keys (tm ! tcand))" by simp
        from cov' [OF t(1) n1 t(3) pq(2) b c k(1) k(3)] qc
        have "pp_edge pinfo' (q, p) \<noteq> None" by simp
        with sym' show ?thesis by (simp add: pp_sym_def)
      next
        case n2: False
        from n1 n2 t have "tri_patch pinfo ! t1 = p" "tri_patch pinfo ! t2 = q"
          by (simp_all add: tp1)
        with pq t k have "shares tm pinfo p q k" unfolding shares_def by blast
        with compl pq(1) have "pp_edge pinfo (p, q) \<noteq> None"
          unfolding pp_complete_def by blast
        then have "pp_edge pinfo1 (p, q) \<noteq> None" by (simp add: pe1)
        then show ?thesis by (rule mono)
      qed
    qed
  qed
  from r tp' tp1 pt' pl1 wf' inv' compl' su st show ?thesis
    by (simp add: find_inv_def)
qed

lemma grow_loop_inv:
  "topo_ok tm tmtopo \<Longrightarrow> list_all is_tri tm \<Longrightarrow> 0 \<le> cur \<Longrightarrow> find_inv tm pinfo \<Longrightarrow>
   nat cur < length (patch pinfo) \<Longrightarrow> \<forall>t \<in> set stack. 0 \<le> t \<and> nat t < length tm \<Longrightarrow>
   \<exists>pinfo'. grow_loop dbg tm tmtopo cur pinfo stack = Inr pinfo'
     \<and> find_inv tm pinfo'
     \<and> length (patch pinfo') = length (patch pinfo)
     \<and> (\<forall>t < length tm. tri_patch pinfo ! t \<noteq> NO_INDEX
           \<longrightarrow> tri_patch pinfo' ! t = tri_patch pinfo ! t)
     \<and> (\<forall>t < length tm. tri_patch pinfo' ! t = tri_patch pinfo ! t \<or> tri_patch pinfo' ! t = cur)
     \<and> (\<forall>t \<in> set stack. tri_patch pinfo' ! nat t \<noteq> NO_INDEX)"
proof (induction dbg tm tmtopo cur pinfo stack rule: grow_loop.induct)
  case (1 dbg tm tmtopo cur pinfo stack)
  note topo = "1.prems"(1) and tris = "1.prems"(2) and cur = "1.prems"(3)
    and fi = "1.prems"(4) and cl = "1.prems"(5) and rng = "1.prems"(6)
  from fi have len: "length (tri_patch pinfo) = length tm"
    by (simp add: find_inv_def pp_inv_def)
  have cn: "cur \<noteq> NO_INDEX" using cur by (simp add: NO_INDEX_def)
  show ?case
  proof (cases stack)
    case Nil
    then have "grow_loop dbg tm tmtopo cur pinfo stack = Inr pinfo"
      by (subst grow_loop.simps) simp
    with fi Nil show ?thesis by simp
  next
    case (Cons tcand rest)
    define tn where "tn = nat tcand"
    from rng Cons have tc: "0 \<le> tcand" "tn < length tm" and it: "int tn = tcand"
      and rr: "\<forall>t \<in> set rest. 0 \<le> t \<and> nat t < length tm"
      by (simp_all add: tn_def)
    have as: "tri_is_assigned pinfo tcand = Inr (tri_patch pinfo ! tn \<noteq> NO_INDEX)"
      using tc len by (simp add: tri_is_assigned_def get_at_def tn_def)
    show ?thesis
    proof (cases "tri_patch pinfo ! tn \<noteq> NO_INDEX")
      case True
      from "1.IH"(1) [OF Cons as True topo tris cur fi cl rr]
      obtain pinfo' where g: "grow_loop dbg tm tmtopo cur pinfo rest = Inr pinfo'"
        and fi': "find_inv tm pinfo'"
        and pl: "length (patch pinfo') = length (patch pinfo)"
        and keep: "\<forall>t < length tm. tri_patch pinfo ! t \<noteq> NO_INDEX
           \<longrightarrow> tri_patch pinfo' ! t = tri_patch pinfo ! t"
        and new: "\<forall>t < length tm. tri_patch pinfo' ! t = tri_patch pinfo ! t
           \<or> tri_patch pinfo' ! t = cur"
        and dn: "\<forall>t \<in> set rest. tri_patch pinfo' ! nat t \<noteq> NO_INDEX"
        by blast
      have r: "grow_loop dbg tm tmtopo cur pinfo stack = Inr pinfo'"
        using Cons as True g by (subst grow_loop.simps) simp
      from keep tc True have "tri_patch pinfo' ! nat tcand \<noteq> NO_INDEX"
        by (simp add: tn_def)
      with dn Cons have "\<forall>t \<in> set stack. tri_patch pinfo' ! nat t \<noteq> NO_INDEX" by simp
      with r fi' pl keep new show ?thesis by blast
    next
      case False
      then have un: "tri_patch pinfo ! tn = NO_INDEX" by simp
      from tris tc(2) have tri: "is_tri (tm ! tn)" by (simp add: list_all_length)
      from grow_step_inv [OF fi topo tri tc(2) un cur cl, of dbg rest]
      obtain pinfo1 stack1 where
        gs: "grow_step dbg tm tmtopo cur (int tn) (pinfo, rest) = Inr (pinfo1, stack1)"
        and tp1: "tri_patch pinfo1 = (tri_patch pinfo)[tn := cur]"
        and pl1: "length (patch pinfo1) = length (patch pinfo)"
        and fi1: "find_inv tm pinfo1"
        and su: "set rest \<subseteq> set stack1"
        and st: "\<forall>t \<in> set stack1. t \<in> set rest \<or> (0 \<le> t \<and> nat t < length tm)"
        by blast
      from gs it have gs': "grow_step dbg tm tmtopo cur tcand (pinfo, rest) = Inr (pinfo1, stack1)"
        by simp
      from st rr have rng1: "\<forall>t \<in> set stack1. 0 \<le> t \<and> nat t < length tm" by blast
      from cl pl1 have cl1: "nat cur < length (patch pinfo1)" by simp
      have na: "\<not> (tri_patch pinfo ! tn \<noteq> NO_INDEX)" using un by simp
      from "1.IH"(2) [OF Cons as na gs' refl topo tris cur fi1 cl1 rng1]
      obtain pinfo' where g: "grow_loop dbg tm tmtopo cur pinfo1 stack1 = Inr pinfo'"
        and fi': "find_inv tm pinfo'"
        and pl: "length (patch pinfo') = length (patch pinfo1)"
        and keep: "\<forall>t < length tm. tri_patch pinfo1 ! t \<noteq> NO_INDEX
           \<longrightarrow> tri_patch pinfo' ! t = tri_patch pinfo1 ! t"
        and new: "\<forall>t < length tm. tri_patch pinfo' ! t = tri_patch pinfo1 ! t
           \<or> tri_patch pinfo' ! t = cur"
        and dn: "\<forall>t \<in> set stack1. tri_patch pinfo' ! nat t \<noteq> NO_INDEX"
        by blast
      have r: "grow_loop dbg tm tmtopo cur pinfo stack = Inr pinfo'"
        using Cons as un gs' g by (subst grow_loop.simps) simp
      have tpn: "tri_patch pinfo1 ! t = (if t = tn then cur else tri_patch pinfo ! t)"
        if "t < length tm" for t
        using that len by (simp add: tp1 nth_list_update)
      have k: "\<forall>t < length tm. tri_patch pinfo ! t \<noteq> NO_INDEX
           \<longrightarrow> tri_patch pinfo' ! t = tri_patch pinfo ! t"
      proof (intro allI impI)
        fix t assume t: "t < length tm" "tri_patch pinfo ! t \<noteq> NO_INDEX"
        with un have "t \<noteq> tn" by auto
        with t tpn [of t] have "tri_patch pinfo1 ! t = tri_patch pinfo ! t" by simp
        with keep t show "tri_patch pinfo' ! t = tri_patch pinfo ! t" by simp
      qed
      have n: "\<forall>t < length tm. tri_patch pinfo' ! t = tri_patch pinfo ! t
           \<or> tri_patch pinfo' ! t = cur"
      proof (intro allI impI)
        fix t assume t: "t < length tm"
        show "tri_patch pinfo' ! t = tri_patch pinfo ! t \<or> tri_patch pinfo' ! t = cur"
        proof (cases "t = tn")
          case True
          with tpn [OF t] have "tri_patch pinfo1 ! t = cur" by simp
          with keep t cn show ?thesis by simp
        next
          case False
          with tpn [OF t] have "tri_patch pinfo1 ! t = tri_patch pinfo ! t" by simp
          with new t show ?thesis by auto
        qed
      qed
      from tpn [OF tc(2)] keep tc(2) cn have "tri_patch pinfo' ! tn \<noteq> NO_INDEX" by simp
      with dn su Cons have d: "\<forall>t \<in> set stack. tri_patch pinfo' ! nat t \<noteq> NO_INDEX"
        by (auto simp: tn_def)
      from r fi' pl pl1 k n d show ?thesis by simp
    qed
  qed
qed

lemma shares_cong: "tri_patch pinfo' = tri_patch pinfo \<Longrightarrow> shares tm pinfo' = shares tm pinfo"
  by (simp add: shares_def fun_eq_iff)

lemma seed_step_inv:
  assumes topo: "topo_ok tm tmtopo" and tris: "list_all is_tri tm"
    and fi: "find_inv tm pinfo" and ne: "patches_nonempty pinfo"
    and t: "0 \<le> t" "nat t < length tm"
  shows "\<exists>pinfo'. seed_step dbg tm tmtopo t pinfo = Inr pinfo'
     \<and> find_inv tm pinfo' \<and> patches_nonempty pinfo'
     \<and> (\<forall>t' < length tm. tri_patch pinfo ! t' \<noteq> NO_INDEX \<longrightarrow> tri_patch pinfo' ! t' \<noteq> NO_INDEX)
     \<and> tri_patch pinfo' ! nat t \<noteq> NO_INDEX"
proof -
  from fi have wf: "pinfo_wf (length tm) pinfo" and inv: "pp_inv tm pinfo"
    and compl: "pp_complete tm pinfo"
    by (simp_all add: find_inv_def)
  from inv have len: "length (tri_patch pinfo) = length tm"
    by (simp add: pp_inv_def)
  have ga: "get_at (tri_patch pinfo) t = Inr (tri_patch pinfo ! nat t)"
    using t len by (simp add: get_at_def)
  show ?thesis
  proof (cases "tri_patch pinfo ! nat t = NO_INDEX")
    case False
    then have "seed_step dbg tm tmtopo t pinfo = Inr pinfo"
      by (simp add: seed_step_def ga NO_INDEX_def)
    with fi ne False show ?thesis by simp
  next
    case True
    define cur where "cur = int (length (patch pinfo))"
    define pinfo1 where "pinfo1 = pinfo\<lparr>patch := patch pinfo @ [empty_Patch]\<rparr>"
    have ap: "add_patch pinfo = (cur, pinfo1)"
      by (simp add: add_patch_def cur_def pinfo1_def)
    have tp1: "tri_patch pinfo1 = tri_patch pinfo" and pe1: "pp_edge pinfo1 = pp_edge pinfo"
      and pt1: "patch pinfo1 = patch pinfo @ [empty_Patch]"
      by (simp_all add: pinfo1_def)
    from wf have bnd: "\<And>t. t < length tm \<Longrightarrow> tri_patch pinfo ! t = NO_INDEX
        \<or> (0 \<le> tri_patch pinfo ! t \<and> nat (tri_patch pinfo ! t) < length (patch pinfo))"
      and old: "\<And>p. p < length (patch pinfo) \<Longrightarrow> distinct (tri (patch pinfo ! p))
        \<and> set (tri (patch pinfo ! p)) = {int t |t. t < length tm \<and> tri_patch pinfo ! t = int p}"
      by (simp_all add: pinfo_wf_def)
    have w2: "tri_patch pinfo1 ! t = NO_INDEX
        \<or> (0 \<le> tri_patch pinfo1 ! t \<and> nat (tri_patch pinfo1 ! t) < length (patch pinfo1))"
      if "t < length tm" for t
      using bnd [OF that] by (auto simp: tp1 pt1)
    have w3: "distinct (tri (patch pinfo1 ! p))
        \<and> set (tri (patch pinfo1 ! p)) = {int t |t. t < length tm \<and> tri_patch pinfo1 ! t = int p}"
      if p: "p < length (patch pinfo1)" for p
    proof (cases "p < length (patch pinfo)")
      case True
      with old [OF True] show ?thesis by (simp add: pt1 tp1 nth_append)
    next
      case False
      with p have pp: "p = length (patch pinfo)" by (simp add: pt1)
      have "{int t |t. t < length tm \<and> tri_patch pinfo ! t = int p} = {}"
      proof -
        have "tri_patch pinfo ! t \<noteq> int p" if "t < length tm" for t
          using bnd [OF that] pp by (auto simp: NO_INDEX_def)
        then show ?thesis by blast
      qed
      with pp show ?thesis by (simp add: pt1 tp1 empty_Patch_def)
    qed
    have wf1: "pinfo_wf (length tm) pinfo1"
      unfolding pinfo_wf_def using len w2 w3 by (simp add: tp1)
    have inv1: "pp_inv tm pinfo1"
      using inv by (simp add: pp_inv_def pp_sym_def pp_sound_def tp1 pe1 shares_cong [OF tp1])
    have compl1: "pp_complete tm pinfo1"
      using compl by (simp add: pp_complete_def pe1 shares_cong [OF tp1])
    have fi1: "find_inv tm pinfo1"
      using wf1 inv1 compl1 by (simp add: find_inv_def)
    have c0: "0 \<le> cur" and cl: "nat cur < length (patch pinfo1)"
      by (simp_all add: cur_def pt1)
    have rng: "\<forall>t' \<in> set [t]. 0 \<le> t' \<and> nat t' < length tm"
      using t by simp
    from grow_loop_inv [OF topo tris c0 fi1 cl rng, of dbg]
    obtain pinfo' where g: "grow_loop dbg tm tmtopo cur pinfo1 [t] = Inr pinfo'"
      and fi': "find_inv tm pinfo'"
      and pl: "length (patch pinfo') = length (patch pinfo1)"
      and keep: "\<forall>t < length tm. tri_patch pinfo1 ! t \<noteq> NO_INDEX
           \<longrightarrow> tri_patch pinfo' ! t = tri_patch pinfo1 ! t"
      and new: "\<forall>t < length tm. tri_patch pinfo' ! t = tri_patch pinfo1 ! t
           \<or> tri_patch pinfo' ! t = cur"
      and dn: "\<forall>t' \<in> set [t]. tri_patch pinfo' ! nat t' \<noteq> NO_INDEX"
      by blast
    have r: "seed_step dbg tm tmtopo t pinfo = Inr pinfo'"
      using True by (simp add: seed_step_def ga NO_INDEX_def ap g)
    from fi' have len': "length (tri_patch pinfo') = length tm"
      by (simp add: find_inv_def pp_inv_def)
    from dn have dt: "tri_patch pinfo' ! nat t \<noteq> NO_INDEX" by simp
    from new t(2) True dt have tc: "tri_patch pinfo' ! nat t = cur"
      by (auto simp: tp1)
    have ne': "patches_nonempty pinfo'"
      unfolding patches_nonempty_def
    proof (intro allI impI)
      fix p assume p: "p < length (patch pinfo')"
      show "\<exists>t < length (tri_patch pinfo'). tri_patch pinfo' ! t = int p"
      proof (cases "p < length (patch pinfo)")
        case True
        with ne obtain t' where t': "t' < length tm" "tri_patch pinfo ! t' = int p"
          unfolding patches_nonempty_def len by blast
        then have "tri_patch pinfo ! t' \<noteq> NO_INDEX" by (simp add: NO_INDEX_def)
        with keep t' have "tri_patch pinfo' ! t' = int p" by (simp add: tp1)
        with t'(1) len' show ?thesis by auto
      next
        case False
        with p pl have "int p = cur" by (simp add: pt1 cur_def)
        with tc t(2) len' show ?thesis by auto
      qed
    qed
    from keep have k: "\<forall>t' < length tm. tri_patch pinfo ! t' \<noteq> NO_INDEX
        \<longrightarrow> tri_patch pinfo' ! t' \<noteq> NO_INDEX"
      by (simp add: tp1)
    from r fi' ne' k dt show ?thesis by blast
  qed
qed

lemma foldE_seed_step_inv:
  assumes topo: "topo_ok tm tmtopo" and tris: "list_all is_tri tm"
    and fi: "find_inv tm pinfo" and ne: "patches_nonempty pinfo"
    and t: "\<forall>t \<in> set ts. 0 \<le> t \<and> nat t < length tm"
  shows "\<exists>pinfo'. foldE (seed_step dbg tm tmtopo) ts pinfo = Inr pinfo'
     \<and> find_inv tm pinfo' \<and> patches_nonempty pinfo'
     \<and> (\<forall>t' < length tm. tri_patch pinfo ! t' \<noteq> NO_INDEX \<longrightarrow> tri_patch pinfo' ! t' \<noteq> NO_INDEX)
     \<and> (\<forall>t \<in> set ts. tri_patch pinfo' ! nat t \<noteq> NO_INDEX)"
  using fi ne t
proof (induction ts arbitrary: pinfo)
  case Nil
  then show ?case by simp
next
  case (Cons t ts)
  from Cons.prems(3) have t: "0 \<le> t" "nat t < length tm"
    and r: "\<forall>t \<in> set ts. 0 \<le> t \<and> nat t < length tm"
    by auto
  from seed_step_inv [OF topo tris Cons.prems(1,2) t, of dbg]
  obtain p1 where s: "seed_step dbg tm tmtopo t pinfo = Inr p1"
    and f1: "find_inv tm p1" and n1: "patches_nonempty p1"
    and k1: "\<forall>t' < length tm. tri_patch pinfo ! t' \<noteq> NO_INDEX \<longrightarrow> tri_patch p1 ! t' \<noteq> NO_INDEX"
    and d1: "tri_patch p1 ! nat t \<noteq> NO_INDEX"
    by blast
  from Cons.IH [OF f1 n1 r]
  obtain p2 where f: "foldE (seed_step dbg tm tmtopo) ts p1 = Inr p2"
    and f2: "find_inv tm p2" and n2: "patches_nonempty p2"
    and k2: "\<forall>t' < length tm. tri_patch p1 ! t' \<noteq> NO_INDEX \<longrightarrow> tri_patch p2 ! t' \<noteq> NO_INDEX"
    and d2: "\<forall>t \<in> set ts. tri_patch p2 ! nat t \<noteq> NO_INDEX"
    by blast
  have "foldE (seed_step dbg tm tmtopo) (t # ts) pinfo = Inr p2"
    by (simp add: s f)
  moreover from k1 k2 have "\<forall>t' < length tm. tri_patch pinfo ! t' \<noteq> NO_INDEX
      \<longrightarrow> tri_patch p2 ! t' \<noteq> NO_INDEX"
    by blast
  moreover from d1 k2 t(2) have "tri_patch p2 ! nat t \<noteq> NO_INDEX" by blast
  ultimately show ?case using f2 n2 d2 by simp
qed

lemma patch_tris_mem: "t \<in> set (patch_tris tm pinfo p) \<longleftrightarrow> t < length tm \<and> tri_patch pinfo ! t = p"
  by (auto simp: patch_tris_def)

lemma shared_edge_shares:
  "p \<noteq> NO_INDEX \<Longrightarrow> q \<noteq> NO_INDEX \<Longrightarrow> shared_edge tm pinfo p q k \<longleftrightarrow> shares tm pinfo p q k"
proof -
  assume pq: "p \<noteq> NO_INDEX" "q \<noteq> NO_INDEX"
  have "shared_edge tm pinfo p q k \<longleftrightarrow>
      non_manifold tm k
      \<and> (\<exists>t. t \<in> set (patch_tris tm pinfo p) \<and> k \<in> set (tri_keys (tm ! t)))
      \<and> (\<exists>t. t \<in> set (patch_tris tm pinfo q) \<and> k \<in> set (tri_keys (tm ! t)))"
    unfolding shared_edge_def list_ex_iff by blast
  also have "\<dots> \<longleftrightarrow> shares tm pinfo p q k"
    unfolding patch_tris_mem shares_def using pq by blast
  finally show ?thesis .
qed

lemma share_non_manifold_iff:
  "share_non_manifold tm pinfo p q \<longleftrightarrow> (\<exists>k. shared_edge tm pinfo p q k)"
proof
  assume "share_non_manifold tm pinfo p q"
  then show "\<exists>k. shared_edge tm pinfo p q k"
    unfolding share_non_manifold_def list_ex_iff by blast
next
  assume "\<exists>k. shared_edge tm pinfo p q k"
  then obtain k where k: "shared_edge tm pinfo p q k" by blast
  then obtain t where "t \<in> set (patch_tris tm pinfo p)" "k \<in> set (tri_keys (tm ! t))"
    unfolding shared_edge_def list_ex_iff by blast
  then have "k \<in> set (concat (map (\<lambda>t. tri_keys (tm ! t)) (patch_tris tm pinfo p)))"
    by auto
  with k show "share_non_manifold tm pinfo p q"
    unfolding share_non_manifold_def list_ex_iff by blast
qed

lemma PatchesInfo_ctor_inv:
  "find_inv tm (PatchesInfo_ctor (length tm)) \<and> patches_nonempty (PatchesInfo_ctor (length tm))"
  by (auto simp: find_inv_def pinfo_wf_def pp_inv_def pp_sym_def pp_sound_def pp_complete_def
      shares_def patches_nonempty_def PatchesInfo_ctor_def)

lemma find_patches_inv:
  assumes tris: "list_all is_tri tm" and topo: "topo_ok tm tmtopo"
  shows "\<exists>pinfo. find_patches dbg tm tmtopo = Inr pinfo
     \<and> find_inv tm pinfo \<and> patches_nonempty pinfo
     \<and> (\<forall>t < length tm. tri_patch pinfo ! t \<noteq> NO_INDEX)"
proof -
  have rng: "\<forall>t \<in> set (map int [0 ..< length tm]). 0 \<le> t \<and> nat t < length tm" by simp
  from PatchesInfo_ctor_inv [of tm]
  have fi: "find_inv tm (PatchesInfo_ctor (length tm))"
    and ne: "patches_nonempty (PatchesInfo_ctor (length tm))"
    by simp_all
  from foldE_seed_step_inv [OF topo tris fi ne rng, of dbg]
  obtain pinfo where f: "foldE (seed_step dbg tm tmtopo) (map int [0 ..< length tm])
        (PatchesInfo_ctor (length tm)) = Inr pinfo"
    and fi': "find_inv tm pinfo" and ne': "patches_nonempty pinfo"
    and d: "\<forall>t \<in> set (map int [0 ..< length tm]). tri_patch pinfo ! nat t \<noteq> NO_INDEX"
    by blast
  from d have "\<forall>t < length tm. tri_patch pinfo ! t \<noteq> NO_INDEX" by simp
  with f fi' ne' show ?thesis by (simp add: find_patches_def)
qed

text \<open>
  Claim C6. On a mesh of triangles, with the topology built from that mesh,
  \<^verbatim>\<open>find_patches\<close> returns; every triangle has a patch index in range; the triangle list of each patch is
  non-empty, has no duplicates and holds exactly the triangles whose index is that patch, so
  the patches partition the triangles; \<open>pp_edge (p, q)\<close> is set exactly when \<open>p \<noteq> q\<close> and a
  triangle of \<open>p\<close> and a triangle of \<open>q\<close> share an edge that does not have exactly two
  triangles; and the edge stored is such a shared edge.
\<close>

theorem find_patches_partition:
  assumes "list_all is_tri tm" and "TriMeshTopology_ctor dbg tm = Inr tmtopo"
  shows "\<exists>pinfo. find_patches dbg tm tmtopo = Inr pinfo
     \<and> length (tri_patch pinfo) = length tm
     \<and> (\<forall>t < length tm. 0 \<le> tri_patch pinfo ! t
           \<and> nat (tri_patch pinfo ! t) < length (patch pinfo))
     \<and> (\<forall>p < length (patch pinfo). tri (patch pinfo ! p) \<noteq> []
           \<and> distinct (tri (patch pinfo ! p))
           \<and> set (tri (patch pinfo ! p)) = int ` set (patch_tris tm pinfo (int p)))
     \<and> (\<forall>p q. pp_edge pinfo (p, q) \<noteq> None \<longleftrightarrow> p \<noteq> q \<and> share_non_manifold tm pinfo p q)
     \<and> (\<forall>p q e. pp_edge pinfo (p, q) = Some e \<longrightarrow> shared_edge tm pinfo p q (edge_key e))"
proof -
  from assms have topo: "topo_ok tm tmtopo" by (rule TriMeshTopology_ctor_ok)
  from find_patches_inv [OF assms(1) topo, of dbg]
  obtain pinfo where f: "find_patches dbg tm tmtopo = Inr pinfo"
    and fi: "find_inv tm pinfo" and ne: "patches_nonempty pinfo"
    and all: "\<forall>t < length tm. tri_patch pinfo ! t \<noteq> NO_INDEX"
    by blast
  from fi have wf: "pinfo_wf (length tm) pinfo" and inv: "pp_inv tm pinfo"
    and compl: "pp_complete tm pinfo"
    by (simp_all add: find_inv_def)
  from inv have len: "length (tri_patch pinfo) = length tm" and sound: "pp_sound tm pinfo"
    by (simp_all add: pp_inv_def)
  from wf all have bnd: "\<forall>t < length tm. 0 \<le> tri_patch pinfo ! t
      \<and> nat (tri_patch pinfo ! t) < length (patch pinfo)"
    unfolding pinfo_wf_def by blast
  have part: "\<forall>p < length (patch pinfo). tri (patch pinfo ! p) \<noteq> []
      \<and> distinct (tri (patch pinfo ! p))
      \<and> set (tri (patch pinfo ! p)) = int ` set (patch_tris tm pinfo (int p))"
  proof (intro allI impI)
    fix p assume p: "p < length (patch pinfo)"
    from wf p have d: "distinct (tri (patch pinfo ! p))"
      and s: "set (tri (patch pinfo ! p)) = {int t |t. t < length tm \<and> tri_patch pinfo ! t = int p}"
      unfolding pinfo_wf_def by blast+
    have e: "{int t |t. t < length tm \<and> tri_patch pinfo ! t = int p} =
        int ` set (patch_tris tm pinfo (int p))"
      by (auto simp: patch_tris_mem)
    from ne p obtain t where "t < length tm" "tri_patch pinfo ! t = int p"
      unfolding patches_nonempty_def len by blast
    with s have "int t \<in> set (tri (patch pinfo ! p))" by blast
    then have "tri (patch pinfo ! p) \<noteq> []" by auto
    with d s e show "tri (patch pinfo ! p) \<noteq> [] \<and> distinct (tri (patch pinfo ! p))
        \<and> set (tri (patch pinfo ! p)) = int ` set (patch_tris tm pinfo (int p))"
      by simp
  qed
  have rep: "\<forall>p q e. pp_edge pinfo (p, q) = Some e \<longrightarrow> shared_edge tm pinfo p q (edge_key e)"
  proof (intro allI impI)
    fix p q e assume "pp_edge pinfo (p, q) = Some e"
    with sound have s: "shares tm pinfo p q (edge_key e)" by (simp add: pp_sound_def)
    then have "p \<noteq> NO_INDEX" "q \<noteq> NO_INDEX" by (simp_all add: shares_def)
    with s show "shared_edge tm pinfo p q (edge_key e)" by (simp add: shared_edge_shares)
  qed
  have iff: "\<forall>p q. pp_edge pinfo (p, q) \<noteq> None \<longleftrightarrow> p \<noteq> q \<and> share_non_manifold tm pinfo p q"
  proof (intro allI iffI)
    fix p q assume "pp_edge pinfo (p, q) \<noteq> None"
    then obtain e where e: "pp_edge pinfo (p, q) = Some e" by auto
    with sound have "p \<noteq> q" by (simp add: pp_sound_def)
    moreover from rep e have "shared_edge tm pinfo p q (edge_key e)" by blast
    ultimately show "p \<noteq> q \<and> share_non_manifold tm pinfo p q"
      unfolding share_non_manifold_iff by blast
  next
    fix p q assume h: "p \<noteq> q \<and> share_non_manifold tm pinfo p q"
    then obtain k where k: "shared_edge tm pinfo p q k"
      unfolding share_non_manifold_iff by blast
    then obtain t1 t2 where "t1 < length tm" "tri_patch pinfo ! t1 = p"
      "t2 < length tm" "tri_patch pinfo ! t2 = q"
      by (auto simp: shared_edge_def list_ex_iff patch_tris_mem)
    with all have "p \<noteq> NO_INDEX" "q \<noteq> NO_INDEX" by auto
    with k have "shares tm pinfo p q k" by (simp add: shared_edge_shares)
    with compl h show "pp_edge pinfo (p, q) \<noteq> None"
      unfolding pp_complete_def by blast
  qed
  from f len bnd part iff rep show ?thesis
    by - (rule exI [of _ pinfo], intro conjI, assumption+)
qed

lemma ex_fins_find_patches:
  "\<exists>p. find_patches True ex_fins ex_fins_topo = Inr p \<and> tri_patch p = [0, 1, 2]
     \<and> map tri (patch p) = [[0], [1], [2]] \<and> pp_edge p (0, 1) = Some (Edge ex_P ex_Q)"
  by (simp add: find_patches_def seed_step_def PatchesInfo_ctor_def add_patch_def
      grow_loop.simps grow_step_def grow_patch_def side_step_def incidence_step_def
      tri_is_assigned_def get_at_def NO_INDEX_def empty_Patch_def add_tri_def
      other_tri_if_manifold_def edge_tris_def ex_fins_topo_def ex_fins_def mk_tri_def
      mk_Edge_def edge_key_def ex_P_def ex_Q_def mk_vert_def Let_def
      add_new_patch_patch_edge_def patch_patch_edge_def BLI_assert_def upt_rec)

theorem find_patches_partition_witness:
  "list_all is_tri ex_fins \<and> TriMeshTopology_ctor True ex_fins = Inr ex_fins_topo
   \<and> (\<exists>pinfo. find_patches True ex_fins ex_fins_topo = Inr pinfo
         \<and> tri_patch pinfo = [0, 1, 2]
         \<and> map tri (patch pinfo) = [[0], [1], [2]]
         \<and> pp_edge pinfo (0, 1) = Some (Edge ex_P ex_Q)
         \<and> pp_edge pinfo (0, 0) = None
         \<and> share_non_manifold ex_fins pinfo 0 1
         \<and> shared_edge ex_fins pinfo 0 1 (0, 1))"
proof -
  have a: "list_all is_tri ex_fins"
    by (simp add: ex_fins_def is_tri_def mk_tri_def)
  have c: "TriMeshTopology_ctor True ex_fins = Inr ex_fins_topo"
    by (rule ex_fins_topo_ctor)
  from ex_fins_find_patches obtain p where pp: "find_patches True ex_fins ex_fins_topo = Inr p
      \<and> tri_patch p = [0, 1, 2] \<and> map tri (patch p) = [[0], [1], [2]]
      \<and> pp_edge p (0, 1) = Some (Edge ex_P ex_Q)"
    ..
  from pp have p: "find_patches True ex_fins ex_fins_topo = Inr p" by (elim conjE)
  from pp have tp: "tri_patch p = [0, 1, 2]" by (elim conjE)
  from pp have pt: "map tri (patch p) = [[0], [1], [2]]" by (elim conjE)
  from pp have e: "pp_edge p (0, 1) = Some (Edge ex_P ex_Q)" by (elim conjE)
  from find_patches_partition [OF a c]
  obtain pinfo where h: "find_patches True ex_fins ex_fins_topo = Inr pinfo
     \<and> length (tri_patch pinfo) = length ex_fins
     \<and> (\<forall>t < length ex_fins. 0 \<le> tri_patch pinfo ! t
           \<and> nat (tri_patch pinfo ! t) < length (patch pinfo))
     \<and> (\<forall>p < length (patch pinfo). tri (patch pinfo ! p) \<noteq> []
           \<and> distinct (tri (patch pinfo ! p))
           \<and> set (tri (patch pinfo ! p)) = int ` set (patch_tris ex_fins pinfo (int p)))
     \<and> (\<forall>p q. pp_edge pinfo (p, q) \<noteq> None \<longleftrightarrow> p \<noteq> q \<and> share_non_manifold ex_fins pinfo p q)
     \<and> (\<forall>p q e. pp_edge pinfo (p, q) = Some e \<longrightarrow> shared_edge ex_fins pinfo p q (edge_key e))"
    ..
  from h have "find_patches True ex_fins ex_fins_topo = Inr pinfo" by (elim conjE)
  with p have eq: "pinfo = p" by simp
  from h have iff: "\<forall>p q. pp_edge pinfo (p, q) \<noteq> None \<longleftrightarrow>
      p \<noteq> q \<and> share_non_manifold ex_fins pinfo p q"
    by (elim conjE)
  from h have rep: "\<forall>p q e. pp_edge pinfo (p, q) = Some e \<longrightarrow>
      shared_edge ex_fins pinfo p q (edge_key e)"
    by (elim conjE)
  from iff have "pp_edge p (0, 0) \<noteq> None \<longleftrightarrow>
      (0::int) \<noteq> 0 \<and> share_non_manifold ex_fins p 0 0"
    unfolding eq by (elim allE)
  then have n: "pp_edge p (0, 0) = None" by simp
  from iff have "pp_edge p (0, 1) \<noteq> None \<longleftrightarrow>
      (0::int) \<noteq> 1 \<and> share_non_manifold ex_fins p 0 1"
    unfolding eq by (elim allE)
  with e have s: "share_non_manifold ex_fins p 0 1" by simp
  from rep have "pp_edge p (0, 1) = Some (Edge ex_P ex_Q) \<longrightarrow>
      shared_edge ex_fins p 0 1 (edge_key (Edge ex_P ex_Q))"
    unfolding eq by (elim allE)
  with e have "shared_edge ex_fins p 0 1 (edge_key (Edge ex_P ex_Q))" by simp
  then have r: "shared_edge ex_fins p 0 1 (0, 1)"
    by (simp add: edge_key_def ex_P_def ex_Q_def mk_vert_def)
  from p tp pt e n s r have "\<exists>pinfo. find_patches True ex_fins ex_fins_topo = Inr pinfo
         \<and> tri_patch pinfo = [0, 1, 2]
         \<and> map tri (patch pinfo) = [[0], [1], [2]]
         \<and> pp_edge pinfo (0, 1) = Some (Edge ex_P ex_Q)
         \<and> pp_edge pinfo (0, 0) = None
         \<and> share_non_manifold ex_fins pinfo 0 1
         \<and> shared_edge ex_fins pinfo 0 1 (0, 1)"
    by - (rule exI [of _ p], intro conjI, assumption+)
  with a c show ?thesis by (intro conjI)
qed

end
